theory Spec2Isabelle
  imports Main "HOL-Library.Word"
begin

unbundle bit_operations_syntax

section \<open>Vulkan vocabulary used by the driver\<close>

text \<open>
  The result codes the driver distinguishes: \<open>VK_SUCCESS\<close>, \<open>VK_INCOMPLETE\<close> and the
  codes listed by \<open>VkErrorMessages\<close>.
\<close>

datatype VkResult =
    VK_SUCCESS
  | VK_INCOMPLETE
  | VK_SUBOPTIMAL_KHR
  | VK_ERROR_OUT_OF_HOST_MEMORY
  | VK_ERROR_OUT_OF_DEVICE_MEMORY
  | VK_ERROR_FRAGMENTED_POOL
  | VK_ERROR_OUT_OF_POOL_MEMORY
  | VK_ERROR_INITIALIZATION_FAILED
  | VK_ERROR_LAYER_NOT_PRESENT
  | VK_ERROR_EXTENSION_NOT_PRESENT
  | VK_ERROR_FEATURE_NOT_PRESENT
  | VK_ERROR_TOO_MANY_OBJECTS
  | VK_ERROR_DEVICE_LOST
  | VK_ERROR_INCOMPATIBLE_DRIVER
  | VK_ERROR_OUT_OF_DATE_KHR
  | VK_ERROR_SURFACE_LOST_KHR
  | VK_ERROR_FULL_SCREEN_EXCLUSIVE_MODE_LOST_EXT

text \<open>
  \<open>VkPhysicalDeviceType\<close>, in the order of the enumeration; the comments of the
  \<open>DEVICE_PRIORITY\<close> table name the entry of each value.
\<close>

datatype VkPhysicalDeviceType =
    VK_PHYSICAL_DEVICE_TYPE_OTHER
  | VK_PHYSICAL_DEVICE_TYPE_INTEGRATED_GPU
  | VK_PHYSICAL_DEVICE_TYPE_DISCRETE_GPU
  | VK_PHYSICAL_DEVICE_TYPE_VIRTUAL_GPU
  | VK_PHYSICAL_DEVICE_TYPE_CPU

fun VkPhysicalDeviceType_value :: "VkPhysicalDeviceType \<Rightarrow> nat" where
  "VkPhysicalDeviceType_value VK_PHYSICAL_DEVICE_TYPE_OTHER = 0"
| "VkPhysicalDeviceType_value VK_PHYSICAL_DEVICE_TYPE_INTEGRATED_GPU = 1"
| "VkPhysicalDeviceType_value VK_PHYSICAL_DEVICE_TYPE_DISCRETE_GPU = 2"
| "VkPhysicalDeviceType_value VK_PHYSICAL_DEVICE_TYPE_VIRTUAL_GPU = 3"
| "VkPhysicalDeviceType_value VK_PHYSICAL_DEVICE_TYPE_CPU = 4"

text \<open>
  \<^verbatim>\<open>static const uint8_t DEVICE_PRIORITY[] = { 0, 3, 4, 2, 1 };\<close>
  The entries are at most 4, so the \<open>uint8_t\<close> ranks are natural numbers here.
\<close>

definition DEVICE_PRIORITY :: "nat list" where
  "DEVICE_PRIORITY = [0, 3, 4, 2, 1]"

definition device_priority :: "VkPhysicalDeviceType \<Rightarrow> nat" where
  "device_priority t = DEVICE_PRIORITY ! VkPhysicalDeviceType_value t"

text \<open>The queue capability bits of \<open>VkQueueFlagBits\<close>.\<close>

definition VK_QUEUE_GRAPHICS_BIT :: "32 word" where
  "VK_QUEUE_GRAPHICS_BIT = 1"

definition VK_QUEUE_COMPUTE_BIT :: "32 word" where
  "VK_QUEUE_COMPUTE_BIT = 2"

definition VK_QUEUE_TRANSFER_BIT :: "32 word" where
  "VK_QUEUE_TRANSFER_BIT = 4"

definition INT32_MAX :: nat where
  "INT32_MAX = 2147483647"

section \<open>Device extensions\<close>

text \<open>The \<open>uint8_t\<close> members of \<open>VulkanExtensions\<close> only ever hold 0 or 1.\<close>

record VulkanExtensions =
  KHR_swapchain :: bool
  KHR_maintenance1 :: bool
  KHR_dedicated_allocation :: bool
  KHR_get_memory_requirements2 :: bool
  KHR_driver_properties :: bool
  KHR_portability_subset :: bool
  GGP_frame_token :: bool

text \<open>\<open>SDL_memset(supports, '\0', sizeof(VulkanExtensions))\<close>\<close>

definition zeroed_extensions :: VulkanExtensions where
  "zeroed_extensions =
     \<lparr>KHR_swapchain = False, KHR_maintenance1 = False, KHR_dedicated_allocation = False,
      KHR_get_memory_requirements2 = False, KHR_driver_properties = False,
      KHR_portability_subset = False, GGP_frame_token = False\<rparr>"

text \<open>One pass of the \<open>CHECK(ext) else CHECK(ext) ...\<close> chain for one extension name.\<close>

definition CHECK_chain :: "string \<Rightarrow> VulkanExtensions \<Rightarrow> VulkanExtensions" where
  "CHECK_chain name supports =
     (if name = ''VK_KHR_swapchain'' then supports\<lparr>KHR_swapchain := True\<rparr>
      else if name = ''VK_KHR_maintenance1'' then supports\<lparr>KHR_maintenance1 := True\<rparr>
      else if name = ''VK_KHR_dedicated_allocation''
        then supports\<lparr>KHR_dedicated_allocation := True\<rparr>
      else if name = ''VK_KHR_get_memory_requirements2''
        then supports\<lparr>KHR_get_memory_requirements2 := True\<rparr>
      else if name = ''VK_KHR_driver_properties'' then supports\<lparr>KHR_driver_properties := True\<rparr>
      else if name = ''VK_KHR_portability_subset''
        then supports\<lparr>KHR_portability_subset := True\<rparr>
      else if name = ''VK_GGP_frame_token'' then supports\<lparr>GGP_frame_token := True\<rparr>
      else supports)"

fun CheckDeviceExtensions_loop :: "string list \<Rightarrow> VulkanExtensions \<Rightarrow> VulkanExtensions" where
  "CheckDeviceExtensions_loop [] supports = supports"
| "CheckDeviceExtensions_loop (name # extensions) supports =
     CheckDeviceExtensions_loop extensions (CHECK_chain name supports)"

text \<open>
  \<open>CheckDeviceExtensions\<close> returns the conjunction of the four required members as a
  \<open>uint8_t\<close> (0 or 1) and leaves the filled structure in \<open>supports\<close>.
\<close>

definition CheckDeviceExtensions :: "string list \<Rightarrow> 8 word \<times> VulkanExtensions" where
  "CheckDeviceExtensions extensions =
     (let supports = CheckDeviceExtensions_loop extensions zeroed_extensions
      in (of_bool (KHR_swapchain supports \<and> KHR_maintenance1 supports \<and>
                   KHR_dedicated_allocation supports \<and> KHR_get_memory_requirements2 supports),
          supports))"

section \<open>Physical devices as the native API describes them\<close>

text \<open>
  A queue family of an adapter: its \<open>queueFlags\<close> and the answer of
  \<open>vkGetPhysicalDeviceSurfaceSupportKHR\<close> for this family and the reference surface.
\<close>

record QueueFamily =
  queueFlags :: "32 word"
  surfaceSupport :: bool

text \<open>
  A physical device is what the instance-level entry points answer for it: its
  properties, its extension list, its queue families and the results of the surface
  queries (the result code of each call, and the count the call leaves behind).
  \<open>formatsMalloc\<close> and \<open>presentModesMalloc\<close> say whether the two checked
  \<open>SDL_malloc\<close> calls of the swapchain query succeed.
\<close>

record VkPhysicalDevice =
  deviceType :: VkPhysicalDeviceType
  extensionProperties :: "string list"
  queueFamilyProperties :: "QueueFamily list"
  surfaceCapabilitiesResult :: VkResult
  surfaceFormatsCountResult :: VkResult
  surfaceFormatsCount :: nat
  surfacePresentModesCountResult :: VkResult
  surfacePresentModesCount :: nat
  formatsMalloc :: bool
  surfaceFormatsResult :: VkResult
  surfaceFormatsWritten :: nat
  presentModesMalloc :: bool
  surfacePresentModesResult :: VkResult
  surfacePresentModesWritten :: nat

text \<open>The members of \<open>VULKAN_GpuDeviceData\<close> that adapter selection reads and writes.\<close>

record VULKAN_GpuDeviceData =
  physicalDevice :: "VkPhysicalDevice option"
  queueFamilyIndex :: nat
  supportedExtensions :: VulkanExtensions

text \<open>\<open>SDL_memset(deviceData, '\0', sizeof(VULKAN_GpuDeviceData))\<close> in \<open>VULKAN_GpuCreateDevice\<close>.\<close>

definition zeroed_deviceData :: VULKAN_GpuDeviceData where
  "zeroed_deviceData =
     \<lparr>physicalDevice = None, queueFamilyIndex = 0, supportedExtensions = zeroed_extensions\<rparr>"

text \<open>
  \<open>vkGetPhysicalDeviceSurfaceSupportKHR\<close> for a family index. An index past the
  adapter's families is invalid usage of the native API; the answer is taken to be
  \<open>VK_FALSE\<close> there.
\<close>

definition vkGetPhysicalDeviceSurfaceSupportKHR :: "VkPhysicalDevice \<Rightarrow> nat \<Rightarrow> bool" where
  "vkGetPhysicalDeviceSurfaceSupportKHR pd i =
     (i < length (queueFamilyProperties pd) \<and> surfaceSupport (queueFamilyProperties pd ! i))"

text \<open>
  Where the C leaves defined behaviour and the model stops: a null pointer is followed,
  an array is accessed outside its slots, \<open>SDL_free\<close> is given a pointer that is not a
  live block (an indeterminate value), or a block that has been freed already.
\<close>

datatype fault = NullDereference | OutOfBounds | InvalidFree | DoubleFree

text \<open>
  What a pointer member holds: \<open>NULL\<close>, the block it was given by \<open>SDL_malloc\<close>, that
  block after \<open>SDL_free\<close>, or some other value (\<open>Wild\<close>: what an uninitialised member may
  hold besides the other three).
\<close>

datatype pointer = Null | Wild | Allocated | Freed

text \<open>\<open>SDL_free\<close>: a no-op on \<open>NULL\<close>, the release of a live block, a fault otherwise.\<close>

definition SDL_free :: "pointer \<Rightarrow> fault + pointer" where
  "SDL_free p =
     (case p of
        Null \<Rightarrow> Inr Null
      | Allocated \<Rightarrow> Inr Freed
      | Freed \<Rightarrow> Inl DoubleFree
      | Wild \<Rightarrow> Inl InvalidFree)"

text \<open>
  The members of \<open>SwapChainSupportDetails\<close> the selection reads or writes; the contents
  of the two arrays are never read.
\<close>

record SwapChainSupportDetails =
  formats :: pointer
  formatsLength :: nat
  presentModes :: pointer
  presentModesLength :: nat

text \<open>
  \<open>VULKAN_SET_ERROR\<close> executes \<open>return SDL_SetError(...)\<close>; \<open>SDL_SetError\<close> returns
  \<open>-1\<close>, which a function declared to return \<open>uint8_t\<close> hands back as 255.
\<close>

definition VULKAN_SET_ERROR_uint8 :: "8 word" where
  "VULKAN_SET_ERROR_uint8 = word_of_int (- 1)"

text \<open>
  \<open>VULKAN_INTERNAL_QuerySwapChainSupport\<close>. It receives the caller's \<open>outputDetails\<close>
  as it finds them and gives back the return value with the structure as it leaves it;
  a member it does not write keeps what it held. The second call of each surface query
  leaves the number of entries written in the length member.
\<close>

definition VULKAN_INTERNAL_QuerySwapChainSupport ::
  "VULKAN_GpuDeviceData \<Rightarrow> VkPhysicalDevice \<Rightarrow> SwapChainSupportDetails
     \<Rightarrow> fault + 8 word \<times> SwapChainSupportDetails" where
  "VULKAN_INTERNAL_QuerySwapChainSupport deviceData pd outputDetails =
     (if \<not> vkGetPhysicalDeviceSurfaceSupportKHR pd (queueFamilyIndex deviceData)
      then Inr (0, outputDetails)
      else
        let d0 = outputDetails\<lparr>formatsLength := 0, presentModesLength := 0\<rparr> in
        if surfaceCapabilitiesResult pd \<noteq> VK_SUCCESS then Inr (VULKAN_SET_ERROR_uint8, d0)
        else
          let d1 = d0\<lparr>formatsLength := surfaceFormatsCount pd\<rparr> in
          if surfaceFormatsCountResult pd \<noteq> VK_SUCCESS then Inr (VULKAN_SET_ERROR_uint8, d1)
          else
            let d2 = d1\<lparr>presentModesLength := surfacePresentModesCount pd\<rparr> in
            if surfacePresentModesCountResult pd \<noteq> VK_SUCCESS
            then Inr (VULKAN_SET_ERROR_uint8, d2)
            else if formatsLength d2 \<noteq> 0 \<and> \<not> formatsMalloc pd
            then Inr (0, d2\<lparr>formats := Null\<rparr>)
            else
              let d3 = (if formatsLength d2 \<noteq> 0
                        then d2\<lparr>formats := Allocated,
                                formatsLength := surfaceFormatsWritten pd\<rparr>
                        else d2) in
              if formatsLength d2 \<noteq> 0 \<and> surfaceFormatsResult pd \<noteq> VK_SUCCESS
              then (case SDL_free (formats d3) of
                      Inl f \<Rightarrow> Inl f
                    | Inr p \<Rightarrow> Inr (0, d3\<lparr>formats := p\<rparr>))
              else if presentModesLength d3 \<noteq> 0 \<and> \<not> presentModesMalloc pd
              then Inr (0, d3\<lparr>presentModes := Null\<rparr>)
              else
                let d4 = (if presentModesLength d3 \<noteq> 0
                          then d3\<lparr>presentModes := Allocated,
                                  presentModesLength := surfacePresentModesWritten pd\<rparr>
                          else d3) in
                if presentModesLength d3 \<noteq> 0 \<and> surfacePresentModesResult pd \<noteq> VK_SUCCESS
                then (case SDL_free (formats d4) of
                        Inl f \<Rightarrow> Inl f
                      | Inr p \<Rightarrow>
                          (case SDL_free (presentModes d4) of
                             Inl f \<Rightarrow> Inl f
                           | Inr q \<Rightarrow> Inr (0, d4\<lparr>formats := p, presentModes := q\<rparr>)))
                else Inr (1, d4))"

section \<open>Adapter selection\<close>

text \<open>
  The rank the loop of \<open>VULKAN_INTERNAL_IsDeviceSuitable\<close> gives to a family that has
  passed the graphics-and-present test.
\<close>

definition queueFamilyRank :: "32 word \<Rightarrow> nat" where
  "queueFamilyRank flags =
     (if flags AND VK_QUEUE_COMPUTE_BIT \<noteq> 0
      then (if flags AND VK_QUEUE_TRANSFER_BIT \<noteq> 0 then 3 else 2)
      else 1)"

text \<open>
  The loop over the queue families, from family \<open>i\<close> on; the state is
  \<open>(*queueFamilyIndex, queueFamilyBest)\<close>. The family index is a \<open>uint32_t\<close> stored
  into an \<open>int32_t\<close>; the indices are natural numbers here, which is what the C
  computes for adapters with fewer than \<open>INT32_MAX\<close> families.
\<close>

fun queueFamily_loop :: "QueueFamily list \<Rightarrow> nat \<Rightarrow> nat \<times> nat \<Rightarrow> nat \<times> nat" where
  "queueFamily_loop [] i st = st"
| "queueFamily_loop (q # queueProps) i (familyIndex, queueFamilyBest) =
     (if \<not> surfaceSupport q \<or> \<not> (queueFlags q AND VK_QUEUE_GRAPHICS_BIT \<noteq> 0)
      then queueFamily_loop queueProps (i + 1) (familyIndex, queueFamilyBest)
      else if queueFamilyRank (queueFlags q) > queueFamilyBest
      then queueFamily_loop queueProps (i + 1) (i, queueFamilyRank (queueFlags q))
      else queueFamily_loop queueProps (i + 1) (familyIndex, queueFamilyBest))"

text \<open>
  The out-parameters of \<open>VULKAN_INTERNAL_IsDeviceSuitable\<close> together with its return
  value. The function receives the current contents of the three locations and gives
  back their contents on return, so a location it does not write keeps its value.
\<close>

record suitability =
  suitable :: "8 word"
  physicalDeviceExtensions :: VulkanExtensions
  queueFamilyIndex_out :: nat
  deviceRank :: nat

text \<open>
  \<open>VULKAN_INTERNAL_IsDeviceSuitable\<close>. \<open>swapchainSupportDetails0\<close> is what the
  uninitialised local \<open>swapchainSupportDetails\<close> holds when the function is entered.
  After the query the function frees \<open>formats\<close> when \<open>formatsLength > 0\<close> and
  \<open>presentModes\<close> when \<open>presentModesLength > 0\<close>, whatever the query has returned, and
  then returns \<open>querySuccess && formatsLength > 0 && presentModesLength > 0\<close>.
\<close>

definition VULKAN_INTERNAL_IsDeviceSuitable ::
  "VULKAN_GpuDeviceData \<Rightarrow> VkPhysicalDevice \<Rightarrow> SwapChainSupportDetails \<Rightarrow> VulkanExtensions
     \<Rightarrow> nat \<Rightarrow> nat \<Rightarrow> fault + suitability" where
  "VULKAN_INTERNAL_IsDeviceSuitable deviceData pd swapchainSupportDetails0 extensions0
       queueFamilyIndex0 deviceRank0 =
     (if deviceRank0 > device_priority (deviceType pd)
      then Inr \<lparr>suitable = 0, physicalDeviceExtensions = extensions0,
                queueFamilyIndex_out = queueFamilyIndex0, deviceRank = 0\<rparr>
      else
        let rank = (if deviceRank0 < device_priority (deviceType pd)
                    then device_priority (deviceType pd) else deviceRank0);
            (allExtensionsSupported, extensions) = CheckDeviceExtensions (extensionProperties pd)
        in
        if allExtensionsSupported = 0
        then Inr \<lparr>suitable = 0, physicalDeviceExtensions = extensions,
                  queueFamilyIndex_out = queueFamilyIndex0, deviceRank = rank\<rparr>
        else
          let (familyIndex, queueFamilyBest) =
                queueFamily_loop (queueFamilyProperties pd) 0 (INT32_MAX, 0)
          in
          if familyIndex = INT32_MAX
          then Inr \<lparr>suitable = 0, physicalDeviceExtensions = extensions,
                    queueFamilyIndex_out = familyIndex, deviceRank = rank\<rparr>
          else
            (case VULKAN_INTERNAL_QuerySwapChainSupport deviceData pd swapchainSupportDetails0 of
               Inl f \<Rightarrow> Inl f
             | Inr (querySuccess, details) \<Rightarrow>
                 (case (if formatsLength details > 0 then SDL_free (formats details)
                        else Inr (formats details)) of
                    Inl f \<Rightarrow> Inl f
                  | Inr p \<Rightarrow>
                      (case (if presentModesLength details > 0
                             then SDL_free (presentModes details)
                             else Inr (presentModes details)) of
                         Inl f \<Rightarrow> Inl f
                       | Inr q \<Rightarrow>
                           Inr \<lparr>suitable =
                                  of_bool (querySuccess \<noteq> 0 \<and> formatsLength details > 0 \<and>
                                           presentModesLength details > 0),
                                physicalDeviceExtensions = extensions,
                                queueFamilyIndex_out = familyIndex, deviceRank = rank\<rparr>))))"

text \<open>
  The locals of \<open>VULKAN_INTERNAL_DeterminePhysicalDevice\<close> that its loop updates.
  \<open>queueFamilyIndex_local\<close>, \<open>suitableQueueFamilyIndex\<close> and the entries of
  \<open>deviceExtensions\<close> are indeterminate before the loop; each is read only after it
  has been written, and they start at zero here.
\<close>

record determine_locals =
  suitableIndex :: int
  highestRank :: nat
  queueFamilyIndex_local :: nat
  suitableQueueFamilyIndex :: nat
  deviceExtensions :: "VulkanExtensions list"

text \<open>
  The body of the loop for the adapter at index \<open>i\<close>. \<open>stack i\<close> is what the
  uninitialised local of \<open>VULKAN_INTERNAL_IsDeviceSuitable\<close> holds during this call.
\<close>

definition determine_step ::
  "VULKAN_GpuDeviceData \<Rightarrow> (nat \<Rightarrow> SwapChainSupportDetails) \<Rightarrow> VkPhysicalDevice \<Rightarrow> nat
     \<Rightarrow> determine_locals \<Rightarrow> fault + determine_locals" where
  "determine_step deviceData stack pd i s =
     (case VULKAN_INTERNAL_IsDeviceSuitable deviceData pd (stack i)
             (deviceExtensions s ! i) (queueFamilyIndex_local s) (highestRank s) of
        Inl f \<Rightarrow> Inl f
      | Inr r \<Rightarrow>
          let s1 = s\<lparr>deviceExtensions := (deviceExtensions s)[i := physicalDeviceExtensions r],
                     queueFamilyIndex_local := queueFamilyIndex_out r\<rparr>
          in
          if suitable r \<noteq> 0
          then Inr (s1\<lparr>suitableIndex := int i,
                       suitableQueueFamilyIndex := queueFamilyIndex_out r,
                       highestRank := deviceRank r\<rparr>)
          else if deviceRank r > highestRank s
          then Inr (s1\<lparr>suitableIndex := - 1, highestRank := deviceRank r\<rparr>)
          else Inr s1)"

fun determine_loop ::
  "VULKAN_GpuDeviceData \<Rightarrow> (nat \<Rightarrow> SwapChainSupportDetails) \<Rightarrow> VkPhysicalDevice list \<Rightarrow> nat
     \<Rightarrow> determine_locals \<Rightarrow> fault + determine_locals" where
  "determine_loop deviceData stack [] i s = Inr s"
| "determine_loop deviceData stack (pd # physicalDevices) i s =
     (case determine_step deviceData stack pd i s of
        Inl f \<Rightarrow> Inl f
      | Inr s1 \<Rightarrow> determine_loop deviceData stack physicalDevices (i + 1) s1)"

text \<open>
  The two \<open>vkEnumeratePhysicalDevices\<close> calls: the result and the count of the
  counting call, the result of the listing call and the adapters it wrote. The listing
  call writes at most as many adapters as the counting call announced and leaves their
  number in \<open>physicalDeviceCount\<close>.
\<close>

record enumeration =
  countResult :: VkResult
  physicalDeviceCount :: nat
  listResult :: VkResult
  listedDevices :: "VkPhysicalDevice list"

definition initial_locals :: "nat \<Rightarrow> determine_locals" where
  "initial_locals n =
     \<lparr>suitableIndex = - 1, highestRank = 0, queueFamilyIndex_local = 0,
      suitableQueueFamilyIndex = 0, deviceExtensions = replicate n zeroed_extensions\<rparr>"

definition VULKAN_INTERNAL_DeterminePhysicalDevice ::
  "VULKAN_GpuDeviceData \<Rightarrow> (nat \<Rightarrow> SwapChainSupportDetails) \<Rightarrow> enumeration
     \<Rightarrow> fault + 8 word \<times> VULKAN_GpuDeviceData" where
  "VULKAN_INTERNAL_DeterminePhysicalDevice deviceData stack e =
     (if countResult e \<noteq> VK_SUCCESS then Inr (VULKAN_SET_ERROR_uint8, deviceData)
      else if physicalDeviceCount e = 0 then Inr (0, deviceData)
      else
        let physicalDevices = take (physicalDeviceCount e) (listedDevices e);
            vulkanResult = (if listResult e = VK_INCOMPLETE then VK_SUCCESS else listResult e)
        in
        if vulkanResult \<noteq> VK_SUCCESS then Inr (0, deviceData)
        else
          (case determine_loop deviceData stack physicalDevices 0
                  (initial_locals (physicalDeviceCount e)) of
             Inl f \<Rightarrow> Inl f
           | Inr s \<Rightarrow>
               if suitableIndex s \<noteq> - 1
               then Inr (1, deviceData
                          \<lparr>supportedExtensions := deviceExtensions s ! nat (suitableIndex s),
                           physicalDevice := Some (physicalDevices ! nat (suitableIndex s)),
                           queueFamilyIndex := suitableQueueFamilyIndex s\<rparr>)
               else Inr (0, deviceData)))"

text \<open>
  What \<open>VULKAN_INTERNAL_IsDeviceSuitable\<close> does with a candidate on its own, that is
  when called with the rank 0 the selection loop starts from: the candidate is usable
  when the call returns nonzero, and \<open>check_returns\<close> says that the call returns at all.
  Both depend on what the uninitialised local holds during the call.
\<close>

definition usable ::
  "VULKAN_GpuDeviceData \<Rightarrow> VkPhysicalDevice \<Rightarrow> SwapChainSupportDetails \<Rightarrow> bool" where
  "usable deviceData pd found =
     (case VULKAN_INTERNAL_IsDeviceSuitable deviceData pd found zeroed_extensions 0 0 of
        Inl f \<Rightarrow> False
      | Inr r \<Rightarrow> suitable r \<noteq> 0)"

definition check_returns ::
  "VULKAN_GpuDeviceData \<Rightarrow> VkPhysicalDevice \<Rightarrow> SwapChainSupportDetails \<Rightarrow> bool" where
  "check_returns deviceData pd found =
     (case VULKAN_INTERNAL_IsDeviceSuitable deviceData pd found zeroed_extensions 0 0 of
        Inl f \<Rightarrow> False
      | Inr r \<Rightarrow> True)"

text \<open>The test a queue family has to pass in the loop: present support and the graphics bit.\<close>

definition graphics_and_present :: "QueueFamily \<Rightarrow> bool" where
  "graphics_and_present q = (surfaceSupport q \<and> queueFlags q AND VK_QUEUE_GRAPHICS_BIT \<noteq> 0)"

text \<open>
  What the locals of the selection loop record about the adapters seen so far: the
  highest class rank among them, and either no accepted adapter (and then no usable
  adapter of that rank has been seen) or an accepted adapter that is usable and of that
  rank.
\<close>

definition selection_inv ::
  "VULKAN_GpuDeviceData \<Rightarrow> (nat \<Rightarrow> SwapChainSupportDetails) \<Rightarrow> VkPhysicalDevice list
     \<Rightarrow> determine_locals \<Rightarrow> bool" where
  "selection_inv dd stack seen s =
     ((\<forall>d\<in>set seen. device_priority (deviceType d) \<le> highestRank s) \<and>
      (highestRank s = 0 \<or> (\<exists>d\<in>set seen. device_priority (deviceType d) = highestRank s)) \<and>
      (if suitableIndex s = - 1
       then \<forall>i<length seen. usable dd (seen ! i) (stack i) \<longrightarrow>
               device_priority (deviceType (seen ! i)) < highestRank s
       else 0 \<le> suitableIndex s \<and> nat (suitableIndex s) < length seen \<and>
            usable dd (seen ! nat (suitableIndex s)) (stack (nat (suitableIndex s))) \<and>
            device_priority (deviceType (seen ! nat (suitableIndex s))) = highestRank s))"

section \<open>Example adapters\<close>

text \<open>
  An adapter with four queue families that answers every surface query with success,
  two surface formats and three present modes; its class and extension list vary.
\<close>

definition required_extension_names :: "string list" where
  "required_extension_names =
     [''VK_KHR_swapchain'', ''VK_KHR_maintenance1'', ''VK_KHR_dedicated_allocation'',
      ''VK_KHR_get_memory_requirements2'']"

definition example_adapter :: "VkPhysicalDeviceType \<Rightarrow> string list \<Rightarrow> VkPhysicalDevice" where
  "example_adapter t exts =
     \<lparr>deviceType = t, extensionProperties = exts,
      queueFamilyProperties =
        [\<lparr>queueFlags = 1, surfaceSupport = True\<rparr>, \<lparr>queueFlags = 7, surfaceSupport = False\<rparr>,
         \<lparr>queueFlags = 3, surfaceSupport = True\<rparr>, \<lparr>queueFlags = 3, surfaceSupport = True\<rparr>],
      surfaceCapabilitiesResult = VK_SUCCESS,
      surfaceFormatsCountResult = VK_SUCCESS, surfaceFormatsCount = 2,
      surfacePresentModesCountResult = VK_SUCCESS, surfacePresentModesCount = 3,
      formatsMalloc = True, surfaceFormatsResult = VK_SUCCESS, surfaceFormatsWritten = 2,
      presentModesMalloc = True, surfacePresentModesResult = VK_SUCCESS,
      surfacePresentModesWritten = 3\<rparr>"

definition example_enumeration :: "VkResult \<Rightarrow> VkPhysicalDevice list \<Rightarrow> enumeration" where
  "example_enumeration res ds =
     \<lparr>countResult = VK_SUCCESS, physicalDeviceCount = length ds, listResult = res,
      listedDevices = ds\<rparr>"

text \<open>
  A stack on which the uninitialised local is found zeroed at every call, and two
  adapters whose surface queries go wrong: on the first the second call of
  \<open>vkGetPhysicalDeviceSurfaceFormatsKHR\<close> fails, on the second the counting call of
  \<open>vkGetPhysicalDeviceSurfacePresentModesKHR\<close> fails and leaves a count of 3 behind.
\<close>

definition zeroed_stack :: "nat \<Rightarrow> SwapChainSupportDetails" where
  "zeroed_stack i =
     \<lparr>formats = Null, formatsLength = 0, presentModes = Null, presentModesLength = 0\<rparr>"

definition adapter_failing_formats :: "VkPhysicalDeviceType \<Rightarrow> VkPhysicalDevice" where
  "adapter_failing_formats t =
     (example_adapter t required_extension_names)
       \<lparr>surfaceFormatsResult := VK_ERROR_SURFACE_LOST_KHR\<rparr>"

definition adapter_failing_present_mode_count :: "VkPhysicalDeviceType \<Rightarrow> VkPhysicalDevice" where
  "adapter_failing_present_mode_count t =
     (example_adapter t required_extension_names)
       \<lparr>surfacePresentModesCountResult := VK_ERROR_SURFACE_LOST_KHR\<rparr>"

text \<open>
  An adapter whose queue family 0, the family the zeroed device data name, cannot
  present to the surface while its family 1 can; and a stack on which every call finds
  what a call on the example adapter leaves in the local: both lengths set and both
  blocks freed.
\<close>

definition adapter_without_present :: "VkPhysicalDeviceType \<Rightarrow> VkPhysicalDevice" where
  "adapter_without_present t =
     (example_adapter t required_extension_names)
       \<lparr>queueFamilyProperties :=
          [\<lparr>queueFlags = 7, surfaceSupport = False\<rparr>, \<lparr>queueFlags = 3, surfaceSupport = True\<rparr>]\<rparr>"

definition reused_stack :: "nat \<Rightarrow> SwapChainSupportDetails" where
  "reused_stack i =
     \<lparr>formats = Freed, formatsLength = 2, presentModes = Freed, presentModesLength = 3\<rparr>"

section \<open>Command buffer pools\<close>

text \<open>
  A \<open>VULKAN_CommandBufferData\<close> wrapper: the native handle, a pointer to the owning pool
  and the \<open>submitted\<close> flag. Every pool belongs to one thread and is reached through
  that thread's entry of the hash table, so the pointer to the pool is given by the
  thread identifier.
\<close>

record VULKAN_CommandBufferData =
  commandBuffer :: nat
  commandPool :: nat
  submitted :: "8 word"

text \<open>
  A \<open>VULKAN_CommandPool\<close>. \<open>vkCommandPool\<close> is the member \<open>commandPool\<close> (the native
  pool handle). \<open>inactiveCommandBuffers\<close> is the array of wrapper pointers with all its
  allocated slots; a wrapper pointer is the address of a wrapper in \<open>wrappers\<close> below.
  The two counters are \<open>uint32_t\<close>: natural numbers with the wrap-around written out
  where they are updated.
\<close>

record VULKAN_CommandPool =
  threadID :: nat
  vkCommandPool :: nat
  inactiveCommandBuffers :: "nat list"
  inactiveCommandBufferCapacity :: nat
  inactiveCommandBufferCount :: nat

text \<open>
  The native driver behind the function pointers \<open>deviceData->vkCreateCommandPool\<close> and
  \<open>deviceData->vkAllocateCommandBuffers\<close>: each call answers with a result code and its
  output (the pool handle; the contents of the \<open>commandBuffers\<close> array by index), and
  the answer may depend on the calls made before.
\<close>

datatype native_call = CreateCommandPool | AllocateCommandBuffers nat nat

record native_driver =
  vkCreateCommandPool :: "native_call list \<Rightarrow> VkResult \<times> nat"
  vkAllocateCommandBuffers :: "native_call list \<Rightarrow> nat \<Rightarrow> nat \<Rightarrow> VkResult \<times> (nat \<Rightarrow> nat)"

text \<open>
  The memory the pool code works on: the thread-to-pool table of the device, the
  wrappers allocated so far (a wrapper's address is its position, and \<open>SDL_malloc\<close>
  hands out the next one), and the native calls made so far with their arguments
  (\<open>AllocateCommandBuffers pool count\<close> records \<open>allocateInfo.commandBufferCount\<close>).
  The unchecked host allocations \<open>SDL_malloc\<close>, \<open>SDL_realloc\<close> and \<open>SDL_stack_alloc\<close>
  of this code are taken to succeed.

  Modelled from the spec: the hash table (\<open>SDL_FindInHashTable\<close>,
  \<open>SDL_InsertIntoHashTable\<close>) is not part of the sources; it is the mapping from thread
  identity to that thread's pool.
\<close>

record pool_world =
  commandPoolHashTable :: "nat \<rightharpoonup> VULKAN_CommandPool"
  wrappers :: "VULKAN_CommandBufferData list"
  nativeCalls :: "native_call list"

text \<open>
  \<open>SDL_realloc\<close> of the pointer array to \<open>n\<close> slots: the old slots are kept, new slots
  are indeterminate (shown as 0; a slot is read only after it has been written).
\<close>

definition SDL_realloc_slots :: "nat \<Rightarrow> nat list \<Rightarrow> nat list" where
  "SDL_realloc_slots n slots = take n slots @ replicate (n - length slots) 0"

text \<open>
  The loop of \<open>VULKAN_INTERNAL_AllocateCommandBuffers\<close> from index \<open>i\<close> with \<open>n\<close>
  iterations left, on the wrapper heap and the pool.
\<close>

fun AllocateCommandBuffers_loop ::
  "(nat \<Rightarrow> nat) \<Rightarrow> nat \<Rightarrow> nat \<Rightarrow> VULKAN_CommandBufferData list \<times> VULKAN_CommandPool
     \<Rightarrow> fault + VULKAN_CommandBufferData list \<times> VULKAN_CommandPool" where
  "AllocateCommandBuffers_loop commandBuffers i 0 (heap, pool) = Inr (heap, pool)"
| "AllocateCommandBuffers_loop commandBuffers i (Suc n) (heap, pool) =
     (let commandBufferData = length heap;
          heap1 = heap @ [\<lparr>commandBuffer = commandBuffers i, commandPool = threadID pool,
                           submitted = 0\<rparr>]
      in
      if inactiveCommandBufferCount pool < length (inactiveCommandBuffers pool)
      then AllocateCommandBuffers_loop commandBuffers (i + 1) n
             (heap1,
              pool\<lparr>inactiveCommandBuffers :=
                     (inactiveCommandBuffers pool)
                       [inactiveCommandBufferCount pool := commandBufferData],
                   inactiveCommandBufferCount :=
                     (inactiveCommandBufferCount pool + 1) mod 2 ^ 32\<rparr>)
      else Inl OutOfBounds)"

text \<open>
  \<open>VULKAN_INTERNAL_AllocateCommandBuffers\<close>. The pool is passed and returned by value;
  the caller stores it where the C pointer points. A failed native call makes the
  function return early (\<open>VULKAN_ERROR_CHECK\<close>), which is a normal return of this
  \<open>void\<close> function.
\<close>

definition VULKAN_INTERNAL_AllocateCommandBuffers ::
  "native_driver \<Rightarrow> pool_world \<Rightarrow> VULKAN_CommandPool \<Rightarrow> nat
     \<Rightarrow> fault + pool_world \<times> VULKAN_CommandPool" where
  "VULKAN_INTERNAL_AllocateCommandBuffers drv w pool allocateCount =
     (let capacity = (inactiveCommandBufferCapacity pool + allocateCount) mod 2 ^ 32;
          pool1 = pool\<lparr>inactiveCommandBufferCapacity := capacity,
                       inactiveCommandBuffers :=
                         SDL_realloc_slots capacity (inactiveCommandBuffers pool)\<rparr>;
          (vulkanResult, commandBuffers) =
             vkAllocateCommandBuffers drv (nativeCalls w) (vkCommandPool pool) allocateCount;
          w1 = w\<lparr>nativeCalls :=
                   nativeCalls w @ [AllocateCommandBuffers (vkCommandPool pool) allocateCount]\<rparr>
      in
      if vulkanResult \<noteq> VK_SUCCESS then Inr (w1, pool1)
      else (case AllocateCommandBuffers_loop commandBuffers 0 allocateCount (wrappers w1, pool1) of
              Inl f \<Rightarrow> Inl f
            | Inr (heap, pool2) \<Rightarrow> Inr (w1\<lparr>wrappers := heap\<rparr>, pool2)))"

text \<open>
  \<open>VULKAN_INTERNAL_FetchCommandPool\<close>; the result is \<open>None\<close> for the \<open>NULL\<close> it returns
  when the native pool cannot be created.
\<close>

definition VULKAN_INTERNAL_FetchCommandPool ::
  "native_driver \<Rightarrow> pool_world \<Rightarrow> nat \<Rightarrow> fault + pool_world \<times> VULKAN_CommandPool option" where
  "VULKAN_INTERNAL_FetchCommandPool drv w tid =
     (case commandPoolHashTable w tid of
        Some vulkanCommandPool \<Rightarrow> Inr (w, Some vulkanCommandPool)
      | None \<Rightarrow>
          let (vulkanResult, handle) = vkCreateCommandPool drv (nativeCalls w);
              w1 = w\<lparr>nativeCalls := nativeCalls w @ [CreateCommandPool]\<rparr>
          in
          if vulkanResult \<noteq> VK_SUCCESS then Inr (w1, None)
          else
            (case VULKAN_INTERNAL_AllocateCommandBuffers drv w1
                    \<lparr>threadID = tid, vkCommandPool = handle, inactiveCommandBuffers = [],
                     inactiveCommandBufferCapacity = 0, inactiveCommandBufferCount = 0\<rparr> 2 of
               Inl f \<Rightarrow> Inl f
             | Inr (w2, pool) \<Rightarrow>
                 Inr (w2\<lparr>commandPoolHashTable := (commandPoolHashTable w2)(tid \<mapsto> pool)\<rparr>,
                      Some pool)))"

text \<open>
  \<open>VULKAN_INTERNAL_GetInactiveCommandBufferFromPool\<close>: the acquisition of one wrapper.
  The index \<open>inactiveCommandBufferCount - 1\<close> is computed in \<open>uint32_t\<close>.
\<close>

definition VULKAN_INTERNAL_GetInactiveCommandBufferFromPool ::
  "native_driver \<Rightarrow> pool_world \<Rightarrow> nat \<Rightarrow> fault + nat \<times> pool_world" where
  "VULKAN_INTERNAL_GetInactiveCommandBufferFromPool drv w tid =
     (case VULKAN_INTERNAL_FetchCommandPool drv w tid of
        Inl f \<Rightarrow> Inl f
      | Inr (w1, None) \<Rightarrow> Inl NullDereference
      | Inr (w1, Some pool) \<Rightarrow>
          (case (if inactiveCommandBufferCount pool = 0
                 then VULKAN_INTERNAL_AllocateCommandBuffers drv w1 pool
                        (inactiveCommandBufferCapacity pool)
                 else Inr (w1, pool)) of
             Inl f \<Rightarrow> Inl f
           | Inr (w2, pool2) \<Rightarrow>
               let last = (inactiveCommandBufferCount pool2 + 2 ^ 32 - 1) mod 2 ^ 32 in
               if last < length (inactiveCommandBuffers pool2)
               then Inr (inactiveCommandBuffers pool2 ! last,
                         w2\<lparr>commandPoolHashTable :=
                              (commandPoolHashTable w2)
                                (tid \<mapsto> pool2\<lparr>inactiveCommandBufferCount := last\<rparr>)\<rparr>)
               else Inl OutOfBounds))"

text \<open>A thread acquiring \<open>n\<close> wrappers in a row, nothing being returned in between.\<close>

fun acquire_sequence ::
  "native_driver \<Rightarrow> nat \<Rightarrow> nat \<Rightarrow> pool_world \<Rightarrow> fault + nat list \<times> pool_world" where
  "acquire_sequence drv tid 0 w = Inr ([], w)"
| "acquire_sequence drv tid (Suc n) w =
     (case VULKAN_INTERNAL_GetInactiveCommandBufferFromPool drv w tid of
        Inl f \<Rightarrow> Inl f
      | Inr (buffer, w1) \<Rightarrow>
          (case acquire_sequence drv tid n w1 of
             Inl f \<Rightarrow> Inl f
           | Inr (buffers, w2) \<Rightarrow> Inr (buffer # buffers, w2)))"

text \<open>The free list of a thread's pool: the first \<open>inactiveCommandBufferCount\<close> slots.\<close>

definition free_list :: "pool_world \<Rightarrow> nat \<Rightarrow> nat list" where
  "free_list w tid =
     (case commandPoolHashTable w tid of
        None \<Rightarrow> []
      | Some pool \<Rightarrow> take (inactiveCommandBufferCount pool) (inactiveCommandBuffers pool))"

text \<open>
  A well-formed pool: the array has \<open>inactiveCommandBufferCapacity\<close> slots, the count is
  within them, and the free list holds distinct wrappers that have been allocated.
\<close>

definition pool_ok :: "pool_world \<Rightarrow> nat \<Rightarrow> bool" where
  "pool_ok w tid =
     (case commandPoolHashTable w tid of
        None \<Rightarrow> True
      | Some pool \<Rightarrow>
          length (inactiveCommandBuffers pool) = inactiveCommandBufferCapacity pool \<and>
          inactiveCommandBufferCapacity pool < 2 ^ 32 \<and>
          inactiveCommandBufferCount pool \<le> inactiveCommandBufferCapacity pool \<and>
          distinct (free_list w tid) \<and>
          list_all (\<lambda>p. p < length (wrappers w)) (free_list w tid))"

text \<open>The state of a device on which no thread has asked for a command buffer yet.\<close>

definition initial_world :: pool_world where
  "initial_world = \<lparr>commandPoolHashTable = Map.empty, wrappers = [], nativeCalls = []\<rparr>"

text \<open>
  Two native drivers for the examples: one that serves every request (handing out
  handles 100, 101, ... per call), one whose buffer allocation always fails.
\<close>

definition serving_driver :: native_driver where
  "serving_driver =
     \<lparr>vkCreateCommandPool = (\<lambda>calls. (VK_SUCCESS, 7)),
      vkAllocateCommandBuffers = (\<lambda>calls pool n. (VK_SUCCESS, \<lambda>i. 100 + i))\<rparr>"

definition exhausted_driver :: native_driver where
  "exhausted_driver =
     \<lparr>vkCreateCommandPool = (\<lambda>calls. (VK_SUCCESS, 7)),
      vkAllocateCommandBuffers =
        (\<lambda>calls pool n. (VK_ERROR_OUT_OF_DEVICE_MEMORY, \<lambda>i. 0))\<rparr>"

text \<open>
  A pool of capacity 2 whose two wrappers have both been handed out, and the state of a
  device that holds it for thread 5.
\<close>

definition example_pool :: VULKAN_CommandPool where
  "example_pool =
     \<lparr>threadID = 5, vkCommandPool = 7, inactiveCommandBuffers = [0, 1],
      inactiveCommandBufferCapacity = 2, inactiveCommandBufferCount = 0\<rparr>"

definition example_world :: pool_world where
  "example_world =
     \<lparr>commandPoolHashTable = [5 \<mapsto> example_pool],
      wrappers = [\<lparr>commandBuffer = 100, commandPool = 5, submitted = 0\<rparr>,
                  \<lparr>commandBuffer = 101, commandPool = 5, submitted = 0\<rparr>],
      nativeCalls = [CreateCommandPool, AllocateCommandBuffers 7 2]\<rparr>"

section \<open>CPU buffers\<close>

text \<open>
  The members of \<open>SDL_GpuCpuBuffer\<close> the Vulkan driver touches. \<open>driverdata\<close> is the
  block the driver attaches, as its bytes; \<open>None\<close> is \<open>NULL\<close>.
\<close>

record SDL_GpuCpuBuffer =
  buflen :: nat
  driverdata :: "8 word list option"

datatype SDL_errorcode = SDL_ENOMEM

text \<open>
  \<open>SDL_calloc(nmemb, bytes)\<close>: \<open>NULL\<close>, or a block of \<open>nmemb * bytes\<close> zero bytes. Whether
  the allocation succeeds is decided outside the driver.
\<close>

definition SDL_calloc :: "bool \<Rightarrow> nat \<Rightarrow> nat \<Rightarrow> 8 word list option" where
  "SDL_calloc succeeds nmemb bytes =
     (if succeeds then Some (replicate (nmemb * bytes) 0) else None)"

text \<open>
  \<open>SDL_memcpy(dst, src, len)\<close> on a destination block; the source is the memory behind
  the pointer, read by offset.
\<close>

definition SDL_memcpy :: "8 word list \<Rightarrow> (nat \<Rightarrow> 8 word) \<Rightarrow> nat \<Rightarrow> 8 word list" where
  "SDL_memcpy dst src len = map src [0..<len] @ drop len dst"

text \<open>
  What a call leaves behind: the value it returns, the error it has set (\<open>SDL_OutOfMemory()\<close>
  sets \<open>SDL_ENOMEM\<close> and returns \<open>-1\<close>), and the buffer.
\<close>

record cpu_buffer_result =
  returned :: int
  error_set :: "SDL_errorcode option"
  buffer_after :: SDL_GpuCpuBuffer

text \<open>\<open>VULKAN_GpuCreateCpuBuffer\<close>; \<open>data\<close> is \<open>None\<close> for a \<open>NULL\<close> pointer.\<close>

definition VULKAN_GpuCreateCpuBuffer ::
  "bool \<Rightarrow> SDL_GpuCpuBuffer \<Rightarrow> (nat \<Rightarrow> 8 word) option \<Rightarrow> cpu_buffer_result" where
  "VULKAN_GpuCreateCpuBuffer calloc_succeeds buffer data =
     (let buffer1 = buffer\<lparr>driverdata := SDL_calloc calloc_succeeds 1 (buflen buffer)\<rparr> in
      case driverdata buffer1 of
        None \<Rightarrow> \<lparr>returned = - 1, error_set = Some SDL_ENOMEM, buffer_after = buffer1\<rparr>
      | Some block \<Rightarrow>
          (case data of
             Some src \<Rightarrow>
               \<lparr>returned = 0, error_set = None,
                buffer_after = buffer1\<lparr>driverdata := Some (SDL_memcpy block src (buflen buffer))\<rparr>\<rparr>
           | None \<Rightarrow> \<lparr>returned = 0, error_set = None, buffer_after = buffer1\<rparr>))"

text \<open>\<open>VULKAN_GpuLockCpuBuffer\<close>\<close>

definition VULKAN_GpuLockCpuBuffer :: "SDL_GpuCpuBuffer \<Rightarrow> 8 word list option" where
  "VULKAN_GpuLockCpuBuffer buffer = driverdata buffer"

section \<open>Fences\<close>

text \<open>
  The fence entry points of the driver. Each receives a pointer to an \<open>SDL_GpuFence\<close>,
  does not follow it, and returns a constant; the fence is returned as it was passed.
  The fence structure itself is not needed and stays a type parameter.
\<close>

definition VULKAN_GpuCreateFence :: "'fence \<Rightarrow> int \<times> 'fence" where
  "VULKAN_GpuCreateFence fence = (0, fence)"

definition VULKAN_GpuQueryFence :: "'fence \<Rightarrow> int \<times> 'fence" where
  "VULKAN_GpuQueryFence fence = (1, fence)"

definition VULKAN_GpuResetFence :: "'fence \<Rightarrow> int \<times> 'fence" where
  "VULKAN_GpuResetFence fence = (0, fence)"

definition VULKAN_GpuWaitFence :: "'fence \<Rightarrow> int \<times> 'fence" where
  "VULKAN_GpuWaitFence fence = (0, fence)"

text \<open>\<open>VULKAN_GpuSubmitCommandBuffer\<close>, with the fence it is given (\<open>None\<close> for \<open>NULL\<close>).\<close>

definition VULKAN_GpuSubmitCommandBuffer :: "'cmdbuf \<Rightarrow> 'fence option \<Rightarrow> int \<times> 'cmdbuf \<times> 'fence option" where
  "VULKAN_GpuSubmitCommandBuffer cmdbuf fence = (0, cmdbuf, fence)"

section \<open>Properties of device extension checking\<close>

lemma loop_swapchain:
  "KHR_swapchain (CheckDeviceExtensions_loop xs s) = (KHR_swapchain s \<or> ''VK_KHR_swapchain'' \<in> set xs)"
  by (induction xs arbitrary: s) (auto simp: CHECK_chain_def)

lemma loop_maintenance1:
  "KHR_maintenance1 (CheckDeviceExtensions_loop xs s) = (KHR_maintenance1 s \<or> ''VK_KHR_maintenance1'' \<in> set xs)"
  by (induction xs arbitrary: s) (auto simp: CHECK_chain_def)

lemma loop_dedicated_allocation:
  "KHR_dedicated_allocation (CheckDeviceExtensions_loop xs s) =
     (KHR_dedicated_allocation s \<or> ''VK_KHR_dedicated_allocation'' \<in> set xs)"
  by (induction xs arbitrary: s) (auto simp: CHECK_chain_def)

lemma loop_get_memory_requirements2:
  "KHR_get_memory_requirements2 (CheckDeviceExtensions_loop xs s) =
     (KHR_get_memory_requirements2 s \<or> ''VK_KHR_get_memory_requirements2'' \<in> set xs)"
  by (induction xs arbitrary: s) (auto simp: CHECK_chain_def)

lemma CheckDeviceExtensions_required:
  "fst (CheckDeviceExtensions xs) \<noteq> 0 \<longleftrightarrow>
     ''VK_KHR_swapchain'' \<in> set xs \<and> ''VK_KHR_maintenance1'' \<in> set xs \<and>
     ''VK_KHR_dedicated_allocation'' \<in> set xs \<and> ''VK_KHR_get_memory_requirements2'' \<in> set xs"
  by (auto simp add: CheckDeviceExtensions_def Let_def loop_swapchain loop_maintenance1
        loop_dedicated_allocation loop_get_memory_requirements2 zeroed_extensions_def)


section \<open>Properties of queue family selection\<close>

lemma queueFamilyRank_range: "1 \<le> queueFamilyRank f \<and> queueFamilyRank f \<le> 3"
  by (simp add: queueFamilyRank_def)

lemma queueFamily_loop_spec:
  "\<exists>idx' best'. queueFamily_loop qs i (idx, best) = (idx', best') \<and> best \<le> best' \<and>
     (\<forall>j<length qs. graphics_and_present (qs ! j) \<longrightarrow> queueFamilyRank (queueFlags (qs ! j)) \<le> best') \<and>
     ((idx', best') = (idx, best) \<or>
      (\<exists>j<length qs. idx' = i + j \<and> graphics_and_present (qs ! j) \<and>
          queueFamilyRank (queueFlags (qs ! j)) = best' \<and> best < best' \<and>
          (\<forall>k<j. graphics_and_present (qs ! k) \<longrightarrow> queueFamilyRank (queueFlags (qs ! k)) < best')))"
proof (induction qs arbitrary: i idx best)
  case Nil
  then show ?case by simp
next
  case (Cons q qs)
  show ?case
  proof (cases "graphics_and_present q")
    case False
    from Cons.IH [of "i + 1" idx best] obtain idx' best' where
      r: "queueFamily_loop qs (i + 1) (idx, best) = (idx', best')" and le: "best \<le> best'" and
      ub: "\<forall>j<length qs. graphics_and_present (qs ! j) \<longrightarrow> queueFamilyRank (queueFlags (qs ! j)) \<le> best'" and
      sel: "(idx', best') = (idx, best) \<or>
        (\<exists>j<length qs. idx' = i + 1 + j \<and> graphics_and_present (qs ! j) \<and>
          queueFamilyRank (queueFlags (qs ! j)) = best' \<and> best < best' \<and>
          (\<forall>k<j. graphics_and_present (qs ! k) \<longrightarrow> queueFamilyRank (queueFlags (qs ! k)) < best'))"
      by blast
    have eq: "queueFamily_loop (q # qs) i (idx, best) = (idx', best')"
      using False r by (auto simp: graphics_and_present_def)
    have ub': "\<forall>j<length (q # qs). graphics_and_present ((q # qs) ! j) \<longrightarrow>
        queueFamilyRank (queueFlags ((q # qs) ! j)) \<le> best'"
      using ub False by (auto simp: nth_Cons split: nat.splits)
    have sel': "(idx', best') = (idx, best) \<or>
        (\<exists>j<length (q # qs). idx' = i + j \<and> graphics_and_present ((q # qs) ! j) \<and>
          queueFamilyRank (queueFlags ((q # qs) ! j)) = best' \<and> best < best' \<and>
          (\<forall>k<j. graphics_and_present ((q # qs) ! k) \<longrightarrow>
             queueFamilyRank (queueFlags ((q # qs) ! k)) < best'))"
      using sel
    proof
      assume "(idx', best') = (idx, best)" then show ?thesis by simp
    next
      assume "\<exists>j<length qs. idx' = i + 1 + j \<and> graphics_and_present (qs ! j) \<and>
          queueFamilyRank (queueFlags (qs ! j)) = best' \<and> best < best' \<and>
          (\<forall>k<j. graphics_and_present (qs ! k) \<longrightarrow> queueFamilyRank (queueFlags (qs ! k)) < best')"
      then obtain j where j: "j < length qs" "idx' = i + 1 + j" "graphics_and_present (qs ! j)"
          "queueFamilyRank (queueFlags (qs ! j)) = best'" "best < best'"
          "\<forall>k<j. graphics_and_present (qs ! k) \<longrightarrow> queueFamilyRank (queueFlags (qs ! k)) < best'"
        by blast
      have "\<forall>k<Suc j. graphics_and_present ((q # qs) ! k) \<longrightarrow>
             queueFamilyRank (queueFlags ((q # qs) ! k)) < best'"
        using j(6) False by (auto simp: nth_Cons split: nat.splits)
      with j have "Suc j < length (q # qs) \<and> idx' = i + Suc j \<and> graphics_and_present ((q # qs) ! Suc j) \<and>
          queueFamilyRank (queueFlags ((q # qs) ! Suc j)) = best' \<and> best < best' \<and>
          (\<forall>k<Suc j. graphics_and_present ((q # qs) ! k) \<longrightarrow>
             queueFamilyRank (queueFlags ((q # qs) ! k)) < best')"
        by simp
      then show ?thesis by blast
    qed
    from eq le ub' sel' show ?thesis by blast
  next
    case True
    show ?thesis
    proof (cases "queueFamilyRank (queueFlags q) > best")
      case gt: True
      from Cons.IH [of "i + 1" i "queueFamilyRank (queueFlags q)"] obtain idx' best' where
        r: "queueFamily_loop qs (i + 1) (i, queueFamilyRank (queueFlags q)) = (idx', best')" and
        le: "queueFamilyRank (queueFlags q) \<le> best'" and
        ub: "\<forall>j<length qs. graphics_and_present (qs ! j) \<longrightarrow> queueFamilyRank (queueFlags (qs ! j)) \<le> best'" and
        sel: "(idx', best') = (i, queueFamilyRank (queueFlags q)) \<or>
          (\<exists>j<length qs. idx' = i + 1 + j \<and> graphics_and_present (qs ! j) \<and>
            queueFamilyRank (queueFlags (qs ! j)) = best' \<and> queueFamilyRank (queueFlags q) < best' \<and>
            (\<forall>k<j. graphics_and_present (qs ! k) \<longrightarrow> queueFamilyRank (queueFlags (qs ! k)) < best'))"
        by blast
      have eq: "queueFamily_loop (q # qs) i (idx, best) = (idx', best')"
        using True gt r by (auto simp: graphics_and_present_def)
      have le': "best \<le> best'" using gt le by simp
      have ub': "\<forall>j<length (q # qs). graphics_and_present ((q # qs) ! j) \<longrightarrow>
          queueFamilyRank (queueFlags ((q # qs) ! j)) \<le> best'"
        using ub le by (auto simp: nth_Cons split: nat.splits)
      have sel': "\<exists>j<length (q # qs). idx' = i + j \<and> graphics_and_present ((q # qs) ! j) \<and>
            queueFamilyRank (queueFlags ((q # qs) ! j)) = best' \<and> best < best' \<and>
            (\<forall>k<j. graphics_and_present ((q # qs) ! k) \<longrightarrow>
               queueFamilyRank (queueFlags ((q # qs) ! k)) < best')"
        using sel
      proof
        assume "(idx', best') = (i, queueFamilyRank (queueFlags q))"
        then have "0 < length (q # qs) \<and> idx' = i + 0 \<and> graphics_and_present ((q # qs) ! 0) \<and>
            queueFamilyRank (queueFlags ((q # qs) ! 0)) = best' \<and> best < best' \<and>
            (\<forall>k<0. graphics_and_present ((q # qs) ! k) \<longrightarrow>
               queueFamilyRank (queueFlags ((q # qs) ! k)) < best')"
          using True gt by simp
        then show ?thesis by blast
      next
        assume "\<exists>j<length qs. idx' = i + 1 + j \<and> graphics_and_present (qs ! j) \<and>
            queueFamilyRank (queueFlags (qs ! j)) = best' \<and> queueFamilyRank (queueFlags q) < best' \<and>
            (\<forall>k<j. graphics_and_present (qs ! k) \<longrightarrow> queueFamilyRank (queueFlags (qs ! k)) < best')"
        then obtain j where j: "j < length qs" "idx' = i + 1 + j" "graphics_and_present (qs ! j)"
            "queueFamilyRank (queueFlags (qs ! j)) = best'" "queueFamilyRank (queueFlags q) < best'"
            "\<forall>k<j. graphics_and_present (qs ! k) \<longrightarrow> queueFamilyRank (queueFlags (qs ! k)) < best'"
          by blast
        have "\<forall>k<Suc j. graphics_and_present ((q # qs) ! k) \<longrightarrow>
               queueFamilyRank (queueFlags ((q # qs) ! k)) < best'"
          using j(5,6) by (auto simp: nth_Cons split: nat.splits)
        with j gt have "Suc j < length (q # qs) \<and> idx' = i + Suc j \<and> graphics_and_present ((q # qs) ! Suc j) \<and>
            queueFamilyRank (queueFlags ((q # qs) ! Suc j)) = best' \<and> best < best' \<and>
            (\<forall>k<Suc j. graphics_and_present ((q # qs) ! k) \<longrightarrow>
               queueFamilyRank (queueFlags ((q # qs) ! k)) < best')"
          by simp
        then show ?thesis by blast
      qed
      from eq le' ub' sel' show ?thesis by blast
    next
      case ngt: False
      from Cons.IH [of "i + 1" idx best] obtain idx' best' where
        r: "queueFamily_loop qs (i + 1) (idx, best) = (idx', best')" and le: "best \<le> best'" and
        ub: "\<forall>j<length qs. graphics_and_present (qs ! j) \<longrightarrow> queueFamilyRank (queueFlags (qs ! j)) \<le> best'" and
        sel: "(idx', best') = (idx, best) \<or>
          (\<exists>j<length qs. idx' = i + 1 + j \<and> graphics_and_present (qs ! j) \<and>
            queueFamilyRank (queueFlags (qs ! j)) = best' \<and> best < best' \<and>
            (\<forall>k<j. graphics_and_present (qs ! k) \<longrightarrow> queueFamilyRank (queueFlags (qs ! k)) < best'))"
        by blast
      have eq: "queueFamily_loop (q # qs) i (idx, best) = (idx', best')"
        using True ngt r by (auto simp: graphics_and_present_def)
      have ub': "\<forall>j<length (q # qs). graphics_and_present ((q # qs) ! j) \<longrightarrow>
          queueFamilyRank (queueFlags ((q # qs) ! j)) \<le> best'"
        using ub le ngt by (auto simp: nth_Cons split: nat.splits)
      have sel': "(idx', best') = (idx, best) \<or>
          (\<exists>j<length (q # qs). idx' = i + j \<and> graphics_and_present ((q # qs) ! j) \<and>
            queueFamilyRank (queueFlags ((q # qs) ! j)) = best' \<and> best < best' \<and>
            (\<forall>k<j. graphics_and_present ((q # qs) ! k) \<longrightarrow>
               queueFamilyRank (queueFlags ((q # qs) ! k)) < best'))"
        using sel
      proof
        assume "(idx', best') = (idx, best)" then show ?thesis by simp
      next
        assume "\<exists>j<length qs. idx' = i + 1 + j \<and> graphics_and_present (qs ! j) \<and>
            queueFamilyRank (queueFlags (qs ! j)) = best' \<and> best < best' \<and>
            (\<forall>k<j. graphics_and_present (qs ! k) \<longrightarrow> queueFamilyRank (queueFlags (qs ! k)) < best')"
        then obtain j where j: "j < length qs" "idx' = i + 1 + j" "graphics_and_present (qs ! j)"
            "queueFamilyRank (queueFlags (qs ! j)) = best'" "best < best'"
            "\<forall>k<j. graphics_and_present (qs ! k) \<longrightarrow> queueFamilyRank (queueFlags (qs ! k)) < best'"
          by blast
        have "\<forall>k<Suc j. graphics_and_present ((q # qs) ! k) \<longrightarrow>
               queueFamilyRank (queueFlags ((q # qs) ! k)) < best'"
          using j(5,6) ngt by (auto simp: nth_Cons split: nat.splits)
        with j have "Suc j < length (q # qs) \<and> idx' = i + Suc j \<and> graphics_and_present ((q # qs) ! Suc j) \<and>
            queueFamilyRank (queueFlags ((q # qs) ! Suc j)) = best' \<and> best < best' \<and>
            (\<forall>k<Suc j. graphics_and_present ((q # qs) ! k) \<longrightarrow>
               queueFamilyRank (queueFlags ((q # qs) ! k)) < best')"
          by simp
        then show ?thesis by blast
      qed
      from eq le ub' sel' show ?thesis by blast
    qed
  qed
qed

section \<open>Properties of adapter selection\<close>

text \<open>
  \<open>VULKAN_INTERNAL_IsDeviceSuitable\<close> called with a rank above the adapter's class
  returns 0 at once and leaves the other locations alone; called with a rank at or below
  it, its verdict and its faults are those of the call that starts from rank 0, and the
  rank it hands back is the adapter's class rank.
\<close>

lemma IsDeviceSuitable_gate:
  "device_priority (deviceType pd) < r \<Longrightarrow>
     VULKAN_INTERNAL_IsDeviceSuitable dd pd g e q r =
       Inr \<lparr>suitable = 0, physicalDeviceExtensions = e, queueFamilyIndex_out = q, deviceRank = 0\<rparr>"
  by (simp add: VULKAN_INTERNAL_IsDeviceSuitable_def)

lemma IsDeviceSuitable_verdict:
  assumes "r \<le> device_priority (deviceType pd)"
  shows "map_sum id suitable (VULKAN_INTERNAL_IsDeviceSuitable dd pd g e q r) =
         map_sum id suitable (VULKAN_INTERNAL_IsDeviceSuitable dd pd g zeroed_extensions 0 0)"
  using assms
  by (simp add: VULKAN_INTERNAL_IsDeviceSuitable_def Let_def case_prod_beta
           split: sum.split)

lemma IsDeviceSuitable_deviceRank:
  assumes "r \<le> device_priority (deviceType pd)"
      and "VULKAN_INTERNAL_IsDeviceSuitable dd pd g e q r = Inr out"
  shows "deviceRank out = device_priority (deviceType pd)"
proof -
  have rank: "(if r < device_priority (deviceType pd) then device_priority (deviceType pd) else r)
      = device_priority (deviceType pd)"
    using assms(1) by simp
  have "map_sum id deviceRank (VULKAN_INTERNAL_IsDeviceSuitable dd pd g e q r) =
        map_sum id (\<lambda>x. device_priority (deviceType pd))
          (VULKAN_INTERNAL_IsDeviceSuitable dd pd g e q r)"
    using assms(1) unfolding VULKAN_INTERNAL_IsDeviceSuitable_def Let_def rank
    by (simp add: case_prod_beta split: sum.split)
  with assms(2) show ?thesis by simp
qed


lemma IsDeviceSuitable_Inr:
  assumes "r \<le> device_priority (deviceType pd)"
      and "VULKAN_INTERNAL_IsDeviceSuitable dd pd g e q r = Inr out"
  shows "deviceRank out = device_priority (deviceType pd) \<and>
         (suitable out \<noteq> 0 \<longleftrightarrow> usable dd pd g)"
proof -
  from IsDeviceSuitable_verdict [OF assms(1), of dd g e q] assms(2)
  have "map_sum id suitable (VULKAN_INTERNAL_IsDeviceSuitable dd pd g zeroed_extensions 0 0) =
      Inr (suitable out)"
    by simp
  then obtain out' where
    "VULKAN_INTERNAL_IsDeviceSuitable dd pd g zeroed_extensions 0 0 = Inr out'"
    "suitable out' = suitable out"
    by (cases "VULKAN_INTERNAL_IsDeviceSuitable dd pd g zeroed_extensions 0 0") auto
  then show ?thesis
    using IsDeviceSuitable_deviceRank [OF assms] by (simp add: usable_def)
qed

lemma IsDeviceSuitable_returns:
  assumes "r \<le> device_priority (deviceType pd)" and "check_returns dd pd g"
  shows "\<exists>out. VULKAN_INTERNAL_IsDeviceSuitable dd pd g e q r = Inr out"
proof -
  from assms(2) obtain out' where
    "VULKAN_INTERNAL_IsDeviceSuitable dd pd g zeroed_extensions 0 0 = Inr out'"
    by (auto simp: check_returns_def split: sum.splits)
  with IsDeviceSuitable_verdict [OF assms(1), of dd g e q]
  have "map_sum id suitable (VULKAN_INTERNAL_IsDeviceSuitable dd pd g e q r) = Inr (suitable out')"
    by simp
  then show ?thesis
    by (cases "VULKAN_INTERNAL_IsDeviceSuitable dd pd g e q r") auto
qed

lemma IsDeviceSuitable_faults:
  assumes "VULKAN_INTERNAL_IsDeviceSuitable dd pd g e q r = Inl f"
  shows "r \<le> device_priority (deviceType pd) \<and>
         VULKAN_INTERNAL_IsDeviceSuitable dd pd g zeroed_extensions 0 0 = Inl f"
proof -
  have le: "r \<le> device_priority (deviceType pd)"
  proof (rule ccontr)
    assume "\<not> r \<le> device_priority (deviceType pd)"
    then have "device_priority (deviceType pd) < r" by simp
    from IsDeviceSuitable_gate [OF this, of dd g e q] assms show False by simp
  qed
  from IsDeviceSuitable_verdict [OF le, of dd g e q] assms
  have "map_sum id suitable (VULKAN_INTERNAL_IsDeviceSuitable dd pd g zeroed_extensions 0 0) = Inl f"
    by simp
  then have "VULKAN_INTERNAL_IsDeviceSuitable dd pd g zeroed_extensions 0 0 = Inl f"
    by (cases "VULKAN_INTERNAL_IsDeviceSuitable dd pd g zeroed_extensions 0 0") auto
  with le show ?thesis by simp
qed

lemma determine_step_Inr:
  assumes "determine_step dd stack pd i s = Inr s'"
  shows "suitableIndex s' =
           (if highestRank s \<le> device_priority (deviceType pd) \<and> usable dd pd (stack i) then int i
            else if highestRank s < device_priority (deviceType pd) then - 1
            else suitableIndex s) \<and>
         highestRank s' = max (highestRank s) (device_priority (deviceType pd))"
proof -
  from assms obtain out where
    out: "VULKAN_INTERNAL_IsDeviceSuitable dd pd (stack i) (deviceExtensions s ! i)
            (queueFamilyIndex_local s) (highestRank s) = Inr out"
    by (auto simp: determine_step_def split: sum.splits)
  show ?thesis
  proof (cases "highestRank s \<le> device_priority (deviceType pd)")
    case True
    from IsDeviceSuitable_Inr [OF True out] assms out True show ?thesis
      by (auto simp: determine_step_def Let_def max_def split: if_splits)
  next
    case False
    then have "device_priority (deviceType pd) < highestRank s" by simp
    from IsDeviceSuitable_gate [OF this, of dd "stack i" "deviceExtensions s ! i"
        "queueFamilyIndex_local s"] assms False show ?thesis
      by (auto simp: determine_step_def Let_def max_def split: if_splits)
  qed
qed

lemma determine_step_returns:
  assumes "check_returns dd pd (stack i)"
  shows "\<exists>s'. determine_step dd stack pd i s = Inr s'"
proof (cases "highestRank s \<le> device_priority (deviceType pd)")
  case True
  from IsDeviceSuitable_returns [OF True assms, of "deviceExtensions s ! i"
      "queueFamilyIndex_local s"]
  show ?thesis by (auto simp: determine_step_def Let_def)
next
  case False
  then have "device_priority (deviceType pd) < highestRank s" by simp
  from IsDeviceSuitable_gate [OF this, of dd "stack i" "deviceExtensions s ! i"
      "queueFamilyIndex_local s"]
  show ?thesis by (simp add: determine_step_def Let_def)
qed

lemma determine_step_faults:
  assumes "determine_step dd stack pd i s = Inl f"
  shows "highestRank s \<le> device_priority (deviceType pd) \<and>
         VULKAN_INTERNAL_IsDeviceSuitable dd pd (stack i) zeroed_extensions 0 0 = Inl f"
proof -
  from assms have "VULKAN_INTERNAL_IsDeviceSuitable dd pd (stack i) (deviceExtensions s ! i)
            (queueFamilyIndex_local s) (highestRank s) = Inl f"
    by (auto simp: determine_step_def Let_def split: sum.splits if_splits)
  then show ?thesis by (rule IsDeviceSuitable_faults)
qed

lemma selection_inv_step:
  assumes "selection_inv dd stack seen s"
      and "determine_step dd stack pd (length seen) s = Inr s'"
  shows "selection_inv dd stack (seen @ [pd]) s'"
proof -
  define P where "P = device_priority (deviceType pd)"
  define H where "H = highestRank s"
  note f = determine_step_Inr [OF assms(2)]
  from f have hr: "highestRank s' = max H P"
    by (simp add: P_def H_def)
  from f have si: "suitableIndex s' =
           (if H \<le> P \<and> usable dd pd (stack (length seen)) then int (length seen)
            else if H < P then - 1 else suitableIndex s)"
    by (simp add: P_def H_def)
  from assms(1) have i1: "\<forall>d\<in>set seen. device_priority (deviceType d) \<le> H"
    and i2: "H = 0 \<or> (\<exists>d\<in>set seen. device_priority (deviceType d) = H)"
    and i3: "suitableIndex s = - 1 \<Longrightarrow> k < length seen \<Longrightarrow> usable dd (seen ! k) (stack k) \<Longrightarrow>
               device_priority (deviceType (seen ! k)) < H"
    and i4: "suitableIndex s \<noteq> - 1 \<Longrightarrow> 0 \<le> suitableIndex s \<and> nat (suitableIndex s) < length seen \<and>
            usable dd (seen ! nat (suitableIndex s)) (stack (nat (suitableIndex s))) \<and>
            device_priority (deviceType (seen ! nat (suitableIndex s))) = H" for k
    by (simp_all add: selection_inv_def H_def)
  have b: "device_priority (deviceType (seen ! k)) \<le> H" if "k < length seen" for k
    using i1 that nth_mem by blast
  have c1: "\<forall>d\<in>set (seen @ [pd]). device_priority (deviceType d) \<le> max H P"
    using i1 by (auto simp: P_def max_def)
  have c2: "max H P = 0 \<or> (\<exists>d\<in>set (seen @ [pd]). device_priority (deviceType d) = max H P)"
  proof (cases "H \<le> P")
    case True
    then have "max H P = P" by simp
    then show ?thesis by (simp add: P_def)
  next
    case False
    then have "max H P = H" "H \<noteq> 0" by simp_all
    with i2 show ?thesis by auto
  qed
  consider (A) "H \<le> P" "usable dd pd (stack (length seen))"
    | (B) "\<not> (H \<le> P \<and> usable dd pd (stack (length seen)))" "H < P"
    | (C) "\<not> (H \<le> P \<and> usable dd pd (stack (length seen)))" "\<not> H < P"
    by blast
  then have c3: "if suitableIndex s' = - 1
       then \<forall>i<length (seen @ [pd]). usable dd ((seen @ [pd]) ! i) (stack i) \<longrightarrow>
               device_priority (deviceType ((seen @ [pd]) ! i)) < max H P
       else 0 \<le> suitableIndex s' \<and> nat (suitableIndex s') < length (seen @ [pd]) \<and>
            usable dd ((seen @ [pd]) ! nat (suitableIndex s')) (stack (nat (suitableIndex s'))) \<and>
            device_priority (deviceType ((seen @ [pd]) ! nat (suitableIndex s'))) = max H P"
  proof cases
    case A
    then have "suitableIndex s' = int (length seen)" by (simp add: si)
    with A show ?thesis by (simp add: P_def max_def)
  next
    case B
    then have idx: "suitableIndex s' = - 1" by (simp add: si)
    from B have nu: "\<not> usable dd pd (stack (length seen))" by auto
    have "device_priority (deviceType ((seen @ [pd]) ! i)) < max H P"
      if "i < length (seen @ [pd])" "usable dd ((seen @ [pd]) ! i) (stack i)" for i
    proof (cases "i < length seen")
      case True
      with b [of i] B(2) show ?thesis by (simp add: nth_append)
    next
      case False
      with that(1) have "i = length seen" by simp
      with that(2) nu show ?thesis by simp
    qed
    with idx show ?thesis by simp
  next
    case C
    then have idx: "suitableIndex s' = suitableIndex s" unfolding si by auto
    from C(2) have m: "max H P = H" by simp
    show ?thesis
    proof (cases "suitableIndex s = - 1")
      case True
      have "device_priority (deviceType ((seen @ [pd]) ! i)) < H"
        if "i < length (seen @ [pd])" "usable dd ((seen @ [pd]) ! i) (stack i)" for i
      proof (cases "i < length seen")
        case True
        with that(2) have "usable dd (seen ! i) (stack i)" by (simp add: nth_append)
        from i3 [OF \<open>suitableIndex s = - 1\<close> True this] True show ?thesis
          by (simp add: nth_append)
      next
        case False
        with that(1) have e: "i = length seen" by simp
        with that(2) have "usable dd pd (stack (length seen))" by simp
        with C have "P < H" by auto
        with e show ?thesis by (simp add: P_def)
      qed
      with True idx m show ?thesis by simp
    next
      case False
      from i4 [OF False] False idx m show ?thesis by (simp add: nth_append)
    qed
  qed
  from c1 c2 c3 show ?thesis
    unfolding selection_inv_def hr by blast
qed

lemma selection_inv_loop:
  "selection_inv dd stack seen s \<Longrightarrow> i = length seen \<Longrightarrow>
     determine_loop dd stack rest i s = Inr s' \<Longrightarrow>
     selection_inv dd stack (seen @ rest) s'"
proof (induction rest arbitrary: seen s i)
  case Nil
  then show ?case by simp
next
  case (Cons pd rest)
  from Cons.prems(3) obtain s1 where
    s1: "determine_step dd stack pd i s = Inr s1" and
    l: "determine_loop dd stack rest (i + 1) s1 = Inr s'"
    by (auto split: sum.splits)
  from s1 Cons.prems(2) have "determine_step dd stack pd (length seen) s = Inr s1" by simp
  from selection_inv_step [OF Cons.prems(1) this]
  have "selection_inv dd stack (seen @ [pd]) s1" .
  from Cons.IH [OF this _ l] Cons.prems(2) show ?case by simp
qed

lemma selection_inv_initial: "selection_inv dd stack [] (initial_locals n)"
  by (simp add: selection_inv_def initial_locals_def)

lemma selection_inv_final:
  "determine_loop dd stack devs 0 (initial_locals n) = Inr s \<Longrightarrow> selection_inv dd stack devs s"
  using selection_inv_loop [OF selection_inv_initial, of 0 dd stack devs n s] by simp

lemma determine_loop_returns:
  "(\<forall>j<length rest. check_returns dd (rest ! j) (stack (i + j))) \<Longrightarrow>
     \<exists>s'. determine_loop dd stack rest i s = Inr s'"
proof (induction rest arbitrary: i s)
  case Nil
  then show ?case by simp
next
  case (Cons pd rest)
  from Cons.prems have "check_returns dd pd (stack i)" by force
  with determine_step_returns [of dd pd stack i s] obtain s1 where
    s1: "determine_step dd stack pd i s = Inr s1" by blast
  have "\<forall>j<length rest. check_returns dd (rest ! j) (stack (i + 1 + j))"
  proof (intro allI impI)
    fix j assume "j < length rest"
    then have "Suc j < length (pd # rest)" by simp
    with Cons.prems have "check_returns dd ((pd # rest) ! Suc j) (stack (i + Suc j))" by blast
    then show "check_returns dd (rest ! j) (stack (i + 1 + j))" by simp
  qed
  from Cons.IH [OF this, of s1] s1 show ?case by simp
qed

lemma determine_loop_faults:
  "determine_loop dd stack rest i s = Inl f \<Longrightarrow>
     \<exists>j<length rest.
        VULKAN_INTERNAL_IsDeviceSuitable dd (rest ! j) (stack (i + j)) zeroed_extensions 0 0 = Inl f"
proof (induction rest arbitrary: i s)
  case Nil
  then show ?case by simp
next
  case (Cons pd rest)
  show ?case
  proof (cases "determine_step dd stack pd i s")
    case (Inl f')
    with Cons.prems have "f' = f" by simp
    with Inl determine_step_faults [of dd stack pd i s f]
    have "VULKAN_INTERNAL_IsDeviceSuitable dd pd (stack i) zeroed_extensions 0 0 = Inl f" by simp
    then have "0 < length (pd # rest) \<and>
        VULKAN_INTERNAL_IsDeviceSuitable dd ((pd # rest) ! 0) (stack (i + 0)) zeroed_extensions 0 0
          = Inl f"
      by simp
    then show ?thesis by blast
  next
    case (Inr s1)
    with Cons.prems have "determine_loop dd stack rest (i + 1) s1 = Inl f" by simp
    from Cons.IH [OF this] obtain j where j: "j < length rest"
      "VULKAN_INTERNAL_IsDeviceSuitable dd (rest ! j) (stack (i + 1 + j)) zeroed_extensions 0 0
         = Inl f"
      by blast
    then have "Suc j < length (pd # rest) \<and>
        VULKAN_INTERNAL_IsDeviceSuitable dd ((pd # rest) ! Suc j) (stack (i + Suc j))
          zeroed_extensions 0 0 = Inl f"
      by simp
    then show ?thesis by blast
  qed
qed


lemma IsDeviceSuitable_requires:
  assumes "VULKAN_INTERNAL_IsDeviceSuitable dd pd g e q r = Inr out" and "suitable out \<noteq> 0"
  shows "fst (CheckDeviceExtensions (extensionProperties pd)) \<noteq> 0 \<and>
         fst (queueFamily_loop (queueFamilyProperties pd) 0 (INT32_MAX, 0)) \<noteq> INT32_MAX \<and>
         queueFamilyIndex_out out = fst (queueFamily_loop (queueFamilyProperties pd) 0 (INT32_MAX, 0))"
proof -
  have "map_sum id (\<lambda>x. suitable x \<noteq> 0 \<longrightarrow>
            fst (CheckDeviceExtensions (extensionProperties pd)) \<noteq> 0 \<and>
            fst (queueFamily_loop (queueFamilyProperties pd) 0 (INT32_MAX, 0)) \<noteq> INT32_MAX \<and>
            queueFamilyIndex_out x =
              fst (queueFamily_loop (queueFamilyProperties pd) 0 (INT32_MAX, 0)))
          (VULKAN_INTERNAL_IsDeviceSuitable dd pd g e q r) =
        map_sum id (\<lambda>x. True) (VULKAN_INTERNAL_IsDeviceSuitable dd pd g e q r)"
    by (simp add: VULKAN_INTERNAL_IsDeviceSuitable_def Let_def case_prod_beta split: sum.split)
  with assms show ?thesis by simp
qed

lemma DeterminePhysicalDevice_loop:
  assumes "countResult e = VK_SUCCESS" and "physicalDeviceCount e \<noteq> 0"
      and "listResult e = VK_SUCCESS \<or> listResult e = VK_INCOMPLETE"
  shows "VULKAN_INTERNAL_DeterminePhysicalDevice dd stack e =
           (case determine_loop dd stack (take (physicalDeviceCount e) (listedDevices e)) 0
                   (initial_locals (physicalDeviceCount e)) of
              Inl f \<Rightarrow> Inl f
            | Inr s \<Rightarrow>
                if suitableIndex s \<noteq> - 1
                then Inr (1, dd
                       \<lparr>supportedExtensions := deviceExtensions s ! nat (suitableIndex s),
                        physicalDevice :=
                          Some (take (physicalDeviceCount e) (listedDevices e) ! nat (suitableIndex s)),
                        queueFamilyIndex := suitableQueueFamilyIndex s\<rparr>)
                else Inr (0, dd))"
  using assms by (auto simp: VULKAN_INTERNAL_DeterminePhysicalDevice_def Let_def)

lemma DeterminePhysicalDevice_no_loop:
  assumes "countResult e \<noteq> VK_SUCCESS \<or> physicalDeviceCount e = 0 \<or>
           (listResult e \<noteq> VK_SUCCESS \<and> listResult e \<noteq> VK_INCOMPLETE)"
  shows "\<exists>ret. VULKAN_INTERNAL_DeterminePhysicalDevice dd stack e = Inr (ret, dd) \<and>
           (countResult e = VK_SUCCESS \<longrightarrow> ret = 0)"
  using assms by (auto simp: VULKAN_INTERNAL_DeterminePhysicalDevice_def Let_def)

lemma selection_nonzero:
  assumes "countResult e = VK_SUCCESS"
      and "VULKAN_INTERNAL_DeterminePhysicalDevice dd stack e = Inr (ret, dd')"
      and "ret \<noteq> 0"
  shows "\<exists>i<length (take (physicalDeviceCount e) (listedDevices e)).
           physicalDevice dd' = Some (take (physicalDeviceCount e) (listedDevices e) ! i) \<and>
           usable dd (take (physicalDeviceCount e) (listedDevices e) ! i) (stack i) \<and>
           (\<forall>d\<in>set (take (physicalDeviceCount e) (listedDevices e)).
              device_priority (deviceType d) \<le>
              device_priority (deviceType (take (physicalDeviceCount e) (listedDevices e) ! i)))"
proof -
  define devs where "devs = take (physicalDeviceCount e) (listedDevices e)"
  have run: "physicalDeviceCount e \<noteq> 0 \<and>
      (listResult e = VK_SUCCESS \<or> listResult e = VK_INCOMPLETE)"
  proof (rule ccontr)
    assume "\<not> ?thesis"
    then have "countResult e \<noteq> VK_SUCCESS \<or> physicalDeviceCount e = 0 \<or>
           (listResult e \<noteq> VK_SUCCESS \<and> listResult e \<noteq> VK_INCOMPLETE)"
      by blast
    from DeterminePhysicalDevice_no_loop [OF this, of dd stack] assms show False by auto
  qed
  then have eq: "VULKAN_INTERNAL_DeterminePhysicalDevice dd stack e =
           (case determine_loop dd stack devs 0 (initial_locals (physicalDeviceCount e)) of
              Inl f \<Rightarrow> Inl f
            | Inr s \<Rightarrow>
                if suitableIndex s \<noteq> - 1
                then Inr (1, dd
                       \<lparr>supportedExtensions := deviceExtensions s ! nat (suitableIndex s),
                        physicalDevice := Some (devs ! nat (suitableIndex s)),
                        queueFamilyIndex := suitableQueueFamilyIndex s\<rparr>)
                else Inr (0, dd))"
    unfolding devs_def using assms(1) by (simp add: DeterminePhysicalDevice_loop)
  with assms(2) obtain s where
    s: "determine_loop dd stack devs 0 (initial_locals (physicalDeviceCount e)) = Inr s"
    by (auto split: sum.splits)
  from eq s assms(2,3) have idx: "suitableIndex s \<noteq> - 1"
    and sel: "physicalDevice dd' = Some (devs ! nat (suitableIndex s))"
    by (auto split: if_splits)
  from selection_inv_final [OF s] idx
  have "nat (suitableIndex s) < length devs \<and>
        usable dd (devs ! nat (suitableIndex s)) (stack (nat (suitableIndex s))) \<and>
        device_priority (deviceType (devs ! nat (suitableIndex s))) = highestRank s \<and>
        (\<forall>d\<in>set devs. device_priority (deviceType d) \<le> highestRank s)"
    by (simp add: selection_inv_def)
  with sel have "nat (suitableIndex s) < length devs \<and>
      physicalDevice dd' = Some (devs ! nat (suitableIndex s)) \<and>
      usable dd (devs ! nat (suitableIndex s)) (stack (nat (suitableIndex s))) \<and>
      (\<forall>d\<in>set devs. device_priority (deviceType d) \<le>
         device_priority (deviceType (devs ! nat (suitableIndex s))))"
    by simp
  then show ?thesis unfolding devs_def by blast
qed

lemma selection_zero:
  assumes "countResult e = VK_SUCCESS"
      and "listResult e = VK_SUCCESS \<or> listResult e = VK_INCOMPLETE"
      and "VULKAN_INTERNAL_DeterminePhysicalDevice dd stack e = Inr (ret, dd')"
      and "i < length (take (physicalDeviceCount e) (listedDevices e))"
      and "usable dd (take (physicalDeviceCount e) (listedDevices e) ! i) (stack i)"
      and "\<forall>d\<in>set (take (physicalDeviceCount e) (listedDevices e)).
              device_priority (deviceType d) \<le>
              device_priority (deviceType (take (physicalDeviceCount e) (listedDevices e) ! i))"
  shows "ret = 1"
proof -
  define devs where "devs = take (physicalDeviceCount e) (listedDevices e)"
  from assms(4) have ne: "physicalDeviceCount e \<noteq> 0" by auto
  have eq: "VULKAN_INTERNAL_DeterminePhysicalDevice dd stack e =
           (case determine_loop dd stack devs 0 (initial_locals (physicalDeviceCount e)) of
              Inl f \<Rightarrow> Inl f
            | Inr s \<Rightarrow>
                if suitableIndex s \<noteq> - 1
                then Inr (1, dd
                       \<lparr>supportedExtensions := deviceExtensions s ! nat (suitableIndex s),
                        physicalDevice := Some (devs ! nat (suitableIndex s)),
                        queueFamilyIndex := suitableQueueFamilyIndex s\<rparr>)
                else Inr (0, dd))"
    unfolding devs_def by (rule DeterminePhysicalDevice_loop [OF assms(1) ne assms(2)])
  with assms(3) obtain s where
    s: "determine_loop dd stack devs 0 (initial_locals (physicalDeviceCount e)) = Inr s"
    by (auto split: sum.splits)
  note inv = selection_inv_final [OF s]
  have i: "i < length devs" "usable dd (devs ! i) (stack i)"
    "\<forall>d\<in>set devs. device_priority (deviceType d) \<le> device_priority (deviceType (devs ! i))"
    using assms(4,5,6) unfolding devs_def by blast+
  have "suitableIndex s \<noteq> - 1"
  proof
    assume none: "suitableIndex s = - 1"
    with inv i(1,2) have lt: "device_priority (deviceType (devs ! i)) < highestRank s"
      by (simp add: selection_inv_def)
    then have "highestRank s \<noteq> 0" by simp
    with inv obtain h where "h \<in> set devs" "device_priority (deviceType h) = highestRank s"
      by (auto simp: selection_inv_def)
    with i(3) lt show False by fastforce
  qed
  with eq s assms(3) show ?thesis by simp
qed

lemma selection_returns:
  assumes "\<forall>i<length (take (physicalDeviceCount e) (listedDevices e)).
             check_returns dd (take (physicalDeviceCount e) (listedDevices e) ! i) (stack i)"
  shows "\<exists>ret dd'. VULKAN_INTERNAL_DeterminePhysicalDevice dd stack e = Inr (ret, dd')"
proof -
  from assms have "\<forall>j<length (take (physicalDeviceCount e) (listedDevices e)).
      check_returns dd (take (physicalDeviceCount e) (listedDevices e) ! j) (stack (0 + j))"
    by simp
  from determine_loop_returns [OF this, of "initial_locals (physicalDeviceCount e)"]
  obtain s where "determine_loop dd stack (take (physicalDeviceCount e) (listedDevices e)) 0
      (initial_locals (physicalDeviceCount e)) = Inr s"
    by blast
  then show ?thesis
    by (simp add: VULKAN_INTERNAL_DeterminePhysicalDevice_def Let_def)
qed

lemma selection_fault:
  assumes "VULKAN_INTERNAL_DeterminePhysicalDevice dd stack e = Inl f"
  shows "\<exists>i<length (take (physicalDeviceCount e) (listedDevices e)).
           VULKAN_INTERNAL_IsDeviceSuitable dd (take (physicalDeviceCount e) (listedDevices e) ! i)
             (stack i) zeroed_extensions 0 0 = Inl f"
proof -
  from assms have "determine_loop dd stack (take (physicalDeviceCount e) (listedDevices e)) 0
      (initial_locals (physicalDeviceCount e)) = Inl f"
    by (auto simp: VULKAN_INTERNAL_DeterminePhysicalDevice_def Let_def
        split: if_splits sum.splits)
  from determine_loop_faults [OF this] show ?thesis by simp
qed

text \<open>
  Whenever selection returns after a successful counting call, it has not fallen back:
  a nonzero result names a usable adapter that no enumerated adapter outranks, and the
  result is 0 when every usable adapter is outranked by some enumerated adapter.
\<close>

lemma selection_returns_no_lower_class:
  assumes "countResult e = VK_SUCCESS"
      and "VULKAN_INTERNAL_DeterminePhysicalDevice dd stack e = Inr (ret, dd')"
      and "\<forall>i<length (take (physicalDeviceCount e) (listedDevices e)).
             usable dd (take (physicalDeviceCount e) (listedDevices e) ! i) (stack i) \<longrightarrow>
             (\<exists>h\<in>set (take (physicalDeviceCount e) (listedDevices e)).
                device_priority (deviceType (take (physicalDeviceCount e) (listedDevices e) ! i))
                  < device_priority (deviceType h))"
  shows "ret = 0 \<and> dd' = dd"
proof -
  have z: "ret = 0"
  proof (rule ccontr)
    assume "ret \<noteq> 0"
    from selection_nonzero [OF assms(1,2) this] obtain i where
      i: "i < length (take (physicalDeviceCount e) (listedDevices e))"
         "usable dd (take (physicalDeviceCount e) (listedDevices e) ! i) (stack i)"
         "\<forall>d\<in>set (take (physicalDeviceCount e) (listedDevices e)).
            device_priority (deviceType d) \<le>
            device_priority (deviceType (take (physicalDeviceCount e) (listedDevices e) ! i))"
      by blast
    from assms(3) i(1,2) obtain h where
      "h \<in> set (take (physicalDeviceCount e) (listedDevices e))"
      "device_priority (deviceType (take (physicalDeviceCount e) (listedDevices e) ! i))
         < device_priority (deviceType h)"
      by blast
    with i(3) show False by fastforce
  qed
  with assms(1,2) have "dd' = dd"
    by (auto simp: VULKAN_INTERNAL_DeterminePhysicalDevice_def Let_def
        split: if_splits sum.splits)
  with z show ?thesis by simp
qed

lemmas selection_eval =
  required_extension_names_def example_adapter_def example_enumeration_def usable_def
  check_returns_def zeroed_stack_def reused_stack_def adapter_failing_formats_def
  adapter_failing_present_mode_count_def adapter_without_present_def SDL_free_def
  VULKAN_INTERNAL_IsDeviceSuitable_def VULKAN_INTERNAL_DeterminePhysicalDevice_def
  VULKAN_INTERNAL_QuerySwapChainSupport_def determine_step_def
  CheckDeviceExtensions_def CHECK_chain_def zeroed_extensions_def zeroed_deviceData_def
  device_priority_def DEVICE_PRIORITY_def queueFamilyRank_def VK_QUEUE_COMPUTE_BIT_def
  VK_QUEUE_TRANSFER_BIT_def VK_QUEUE_GRAPHICS_BIT_def INT32_MAX_def initial_locals_def
  vkGetPhysicalDeviceSurfaceSupportKHR_def VULKAN_SET_ERROR_uint8_def graphics_and_present_def
  Let_def

text \<open>
  Claim C1, at a candidate list on which the code does not do what the claim says: a
  usable integrated GPU followed by a discrete GPU whose second
  \<open>vkGetPhysicalDeviceSurfaceFormatsKHR\<close> call fails. The discrete adapter is of a
  higher class and is not usable, so the claim has selection return 0. Whatever the
  uninitialised local holds, the check of the discrete adapter frees \<open>formats\<close> a second
  time after \<open>VULKAN_INTERNAL_QuerySwapChainSupport\<close> has freed it, and selection does not
  return.
\<close>

theorem selection_faults_on_unusable_higher_class:
  "usable zeroed_deviceData
     (example_adapter VK_PHYSICAL_DEVICE_TYPE_INTEGRATED_GPU required_extension_names) (stack 0) \<and>
   device_priority VK_PHYSICAL_DEVICE_TYPE_INTEGRATED_GPU
     < device_priority VK_PHYSICAL_DEVICE_TYPE_DISCRETE_GPU \<and>
   \<not> usable zeroed_deviceData
     (adapter_failing_formats VK_PHYSICAL_DEVICE_TYPE_DISCRETE_GPU) (stack 1) \<and>
   VULKAN_INTERNAL_IsDeviceSuitable zeroed_deviceData
     (adapter_failing_formats VK_PHYSICAL_DEVICE_TYPE_DISCRETE_GPU) (stack 1)
     zeroed_extensions 2 3 = Inl DoubleFree \<and>
   VULKAN_INTERNAL_DeterminePhysicalDevice zeroed_deviceData stack
     (example_enumeration VK_SUCCESS
        [example_adapter VK_PHYSICAL_DEVICE_TYPE_INTEGRATED_GPU required_extension_names,
         adapter_failing_formats VK_PHYSICAL_DEVICE_TYPE_DISCRETE_GPU]) = Inl DoubleFree"
  by (simp add: selection_eval)

text \<open>
  Claim C2, as amended. The class ranks of the \<open>DEVICE_PRIORITY\<close> table order the
  adapter classes discrete > integrated > virtual > software (CPU) > other: an integrated
  GPU ranks strictly above a virtual GPU, not below it.
\<close>

theorem device_class_ranking:
  "device_priority VK_PHYSICAL_DEVICE_TYPE_OTHER < device_priority VK_PHYSICAL_DEVICE_TYPE_CPU \<and>
   device_priority VK_PHYSICAL_DEVICE_TYPE_CPU < device_priority VK_PHYSICAL_DEVICE_TYPE_VIRTUAL_GPU \<and>
   device_priority VK_PHYSICAL_DEVICE_TYPE_VIRTUAL_GPU
     < device_priority VK_PHYSICAL_DEVICE_TYPE_INTEGRATED_GPU \<and>
   device_priority VK_PHYSICAL_DEVICE_TYPE_INTEGRATED_GPU
     < device_priority VK_PHYSICAL_DEVICE_TYPE_DISCRETE_GPU"
  by (simp add: device_priority_def DEVICE_PRIORITY_def)

text \<open>
  The claim as stated puts a virtual GPU strictly above an integrated GPU; the table
  gives the integrated GPU rank 3 and the virtual GPU rank 2.
\<close>

theorem virtual_above_integrated_counterexample:
  "\<not> device_priority VK_PHYSICAL_DEVICE_TYPE_INTEGRATED_GPU
       < device_priority VK_PHYSICAL_DEVICE_TYPE_VIRTUAL_GPU"
  by (simp add: device_priority_def DEVICE_PRIORITY_def)

text \<open>
  Claim C3, at two adapters on which the code does not do what the claim says. On an
  adapter whose counting call of \<open>vkGetPhysicalDeviceSurfacePresentModesKHR\<close> fails,
  leaving a count of 3, \<open>VULKAN_INTERNAL_QuerySwapChainSupport\<close> returns 255 through
  \<open>VULKAN_SET_ERROR\<close> before either list is fetched, and
  \<open>VULKAN_INTERNAL_IsDeviceSuitable\<close>, finding its local zeroed, reports the adapter
  usable. On an adapter whose second \<open>vkGetPhysicalDeviceSurfaceFormatsKHR\<close> call fails
  the function does not report the adapter unusable: it frees \<open>formats\<close> a second time.
\<close>

theorem failed_query_reported_usable:
  "VULKAN_INTERNAL_QuerySwapChainSupport zeroed_deviceData
     (adapter_failing_present_mode_count VK_PHYSICAL_DEVICE_TYPE_DISCRETE_GPU) (zeroed_stack 0) =
     Inr (255, \<lparr>formats = Null, formatsLength = 2, presentModes = Null,
                presentModesLength = 3\<rparr>) \<and>
   map_sum id suitable
     (VULKAN_INTERNAL_IsDeviceSuitable zeroed_deviceData
        (adapter_failing_present_mode_count VK_PHYSICAL_DEVICE_TYPE_DISCRETE_GPU) (zeroed_stack 0)
        zeroed_extensions 0 0) = Inr 1 \<and>
   usable zeroed_deviceData
     (adapter_failing_present_mode_count VK_PHYSICAL_DEVICE_TYPE_DISCRETE_GPU) (zeroed_stack 0) \<and>
   VULKAN_INTERNAL_IsDeviceSuitable zeroed_deviceData
     (adapter_failing_formats VK_PHYSICAL_DEVICE_TYPE_DISCRETE_GPU) found
     zeroed_extensions 0 0 = Inl DoubleFree"
  by (simp add: selection_eval)

text \<open>
  Claim C4. For an adapter with at least one graphics-and-present queue family (and
  fewer than \<open>INT32_MAX\<close> families), the loop selects a graphics-and-present family of
  the highest rank, and the first such family in index order; the rank is 3 for a
  family with the compute and transfer bits, 2 for compute without transfer, and 1 for a
  family without the compute bit. A successful \<open>VULKAN_INTERNAL_IsDeviceSuitable\<close>
  hands this index back in \<open>*queueFamilyIndex\<close>.
\<close>

theorem queue_family_choice:
  assumes "length (queueFamilyProperties pd) < INT32_MAX"
      and "\<exists>f\<in>set (queueFamilyProperties pd). graphics_and_present f"
  shows "\<exists>j best.
           queueFamily_loop (queueFamilyProperties pd) 0 (INT32_MAX, 0) = (j, best) \<and>
           j < length (queueFamilyProperties pd) \<and> j \<noteq> INT32_MAX \<and>
           graphics_and_present (queueFamilyProperties pd ! j) \<and>
           best = queueFamilyRank (queueFlags (queueFamilyProperties pd ! j)) \<and>
           (\<forall>k<length (queueFamilyProperties pd).
              graphics_and_present (queueFamilyProperties pd ! k) \<longrightarrow>
              queueFamilyRank (queueFlags (queueFamilyProperties pd ! k)) \<le> best) \<and>
           (\<forall>k<j. graphics_and_present (queueFamilyProperties pd ! k) \<longrightarrow>
              queueFamilyRank (queueFlags (queueFamilyProperties pd ! k)) < best) \<and>
           (\<forall>flags. queueFamilyRank flags =
              (if flags AND VK_QUEUE_COMPUTE_BIT = 0 then 1
               else if flags AND VK_QUEUE_TRANSFER_BIT = 0 then 2 else 3)) \<and>
           (\<forall>dd found e q r out.
              VULKAN_INTERNAL_IsDeviceSuitable dd pd found e q r = Inr out \<and> suitable out \<noteq> 0 \<longrightarrow>
              queueFamilyIndex_out out = j)"
proof -
  define qs where "qs = queueFamilyProperties pd"
  from queueFamily_loop_spec [of qs 0 INT32_MAX 0] obtain j best where
    r: "queueFamily_loop qs 0 (INT32_MAX, 0) = (j, best)" and
    ub: "\<forall>k<length qs. graphics_and_present (qs ! k) \<longrightarrow> queueFamilyRank (queueFlags (qs ! k)) \<le> best" and
    sel: "(j, best) = (INT32_MAX, 0) \<or>
      (\<exists>m<length qs. j = 0 + m \<and> graphics_and_present (qs ! m) \<and>
          queueFamilyRank (queueFlags (qs ! m)) = best \<and> 0 < best \<and>
          (\<forall>k<m. graphics_and_present (qs ! k) \<longrightarrow> queueFamilyRank (queueFlags (qs ! k)) < best))"
    by blast
  from assms(2) obtain m where m: "m < length qs" "graphics_and_present (qs ! m)"
    unfolding qs_def by (auto simp: in_set_conv_nth)
  with ub have "queueFamilyRank (queueFlags (qs ! m)) \<le> best" by blast
  with queueFamilyRank_range [of "queueFlags (qs ! m)"] have "best \<noteq> 0" by linarith
  with sel have found: "j < length qs \<and> graphics_and_present (qs ! j) \<and>
      queueFamilyRank (queueFlags (qs ! j)) = best \<and>
      (\<forall>k<j. graphics_and_present (qs ! k) \<longrightarrow> queueFamilyRank (queueFlags (qs ! k)) < best)"
    by auto
  then have ne: "j \<noteq> INT32_MAX" using assms(1) unfolding qs_def by simp
  have rank: "\<forall>flags. queueFamilyRank flags =
      (if flags AND VK_QUEUE_COMPUTE_BIT = 0 then 1
       else if flags AND VK_QUEUE_TRANSFER_BIT = 0 then 2 else 3)"
    by (simp add: queueFamilyRank_def)
  have out: "\<forall>dd found e q r out.
      VULKAN_INTERNAL_IsDeviceSuitable dd pd found e q r = Inr out \<and> suitable out \<noteq> 0 \<longrightarrow>
      queueFamilyIndex_out out = j"
  proof (intro allI impI)
    fix dd found e q r' out
    assume "VULKAN_INTERNAL_IsDeviceSuitable dd pd found e q r' = Inr out \<and> suitable out \<noteq> 0"
    then have "queueFamilyIndex_out out =
        fst (queueFamily_loop (queueFamilyProperties pd) 0 (INT32_MAX, 0))"
      using IsDeviceSuitable_requires [of dd pd found e q r' out] by blast
    with r show "queueFamilyIndex_out out = j" by (simp add: qs_def)
  qed
  from r ub found ne rank out show ?thesis unfolding qs_def by blast
qed

theorem queue_family_choice_witness:
  "length (queueFamilyProperties
      (example_adapter VK_PHYSICAL_DEVICE_TYPE_DISCRETE_GPU required_extension_names)) < INT32_MAX \<and>
   graphics_and_present (queueFamilyProperties
      (example_adapter VK_PHYSICAL_DEVICE_TYPE_DISCRETE_GPU required_extension_names) ! 2) \<and>
   queueFamily_loop (queueFamilyProperties
      (example_adapter VK_PHYSICAL_DEVICE_TYPE_DISCRETE_GPU required_extension_names)) 0
      (INT32_MAX, 0) = (2, 2) \<and>
   map_sum id suitable (VULKAN_INTERNAL_IsDeviceSuitable zeroed_deviceData
       (example_adapter VK_PHYSICAL_DEVICE_TYPE_DISCRETE_GPU required_extension_names)
       (zeroed_stack 0) zeroed_extensions 0 0) = Inr 1 \<and>
   map_sum id queueFamilyIndex_out (VULKAN_INTERNAL_IsDeviceSuitable zeroed_deviceData
       (example_adapter VK_PHYSICAL_DEVICE_TYPE_DISCRETE_GPU required_extension_names)
       (zeroed_stack 0) zeroed_extensions 0 0) = Inr 2"
  using queue_family_choice
    [of "example_adapter VK_PHYSICAL_DEVICE_TYPE_DISCRETE_GPU required_extension_names"]
  by (simp add: selection_eval)

text \<open>
  Claim C8. When the counting call of \<open>vkEnumeratePhysicalDevices\<close> has succeeded and
  the listing call returns \<open>VK_INCOMPLETE\<close>, selection does exactly what it does for
  \<open>VK_SUCCESS\<close> and works on the adapters that were written: when it returns, the result
  is 1 precisely if one of them is usable and of the highest class rank among them, and
  the adapter it stores is such an adapter; it returns whenever the check of each written
  adapter returns, and a fault can only be a fault of the check of one of them. Any
  other result of the listing call but \<open>VK_SUCCESS\<close> makes selection return 0 with the
  device data untouched.
\<close>

theorem incomplete_enumeration_is_success:
  assumes "countResult e = VK_SUCCESS" and "listResult e = VK_INCOMPLETE"
  shows "VULKAN_INTERNAL_DeterminePhysicalDevice dd stack e =
           VULKAN_INTERNAL_DeterminePhysicalDevice dd stack (e\<lparr>listResult := VK_SUCCESS\<rparr>) \<and>
         (\<forall>ret dd'. VULKAN_INTERNAL_DeterminePhysicalDevice dd stack e = Inr (ret, dd') \<longrightarrow>
            (ret = 0 \<or> ret = 1) \<and>
            (ret = 1 \<longleftrightarrow>
               (\<exists>i<length (take (physicalDeviceCount e) (listedDevices e)).
                  usable dd (take (physicalDeviceCount e) (listedDevices e) ! i) (stack i) \<and>
                  (\<forall>h\<in>set (take (physicalDeviceCount e) (listedDevices e)).
                     device_priority (deviceType h) \<le>
                     device_priority
                       (deviceType (take (physicalDeviceCount e) (listedDevices e) ! i))))) \<and>
            (ret = 1 \<longrightarrow>
               (\<exists>i<length (take (physicalDeviceCount e) (listedDevices e)).
                  physicalDevice dd' = Some (take (physicalDeviceCount e) (listedDevices e) ! i) \<and>
                  usable dd (take (physicalDeviceCount e) (listedDevices e) ! i) (stack i) \<and>
                  (\<forall>h\<in>set (take (physicalDeviceCount e) (listedDevices e)).
                     device_priority (deviceType h) \<le>
                     device_priority
                       (deviceType (take (physicalDeviceCount e) (listedDevices e) ! i)))))) \<and>
         ((\<forall>i<length (take (physicalDeviceCount e) (listedDevices e)).
              check_returns dd (take (physicalDeviceCount e) (listedDevices e) ! i) (stack i)) \<longrightarrow>
          (\<exists>ret dd'. VULKAN_INTERNAL_DeterminePhysicalDevice dd stack e = Inr (ret, dd'))) \<and>
         (\<forall>f. VULKAN_INTERNAL_DeterminePhysicalDevice dd stack e = Inl f \<longrightarrow>
            (\<exists>i<length (take (physicalDeviceCount e) (listedDevices e)).
               VULKAN_INTERNAL_IsDeviceSuitable dd
                 (take (physicalDeviceCount e) (listedDevices e) ! i) (stack i)
                 zeroed_extensions 0 0 = Inl f)) \<and>
         (\<forall>res. res \<noteq> VK_SUCCESS \<and> res \<noteq> VK_INCOMPLETE \<and> physicalDeviceCount e \<noteq> 0 \<longrightarrow>
            VULKAN_INTERNAL_DeterminePhysicalDevice dd stack (e\<lparr>listResult := res\<rparr>) = Inr (0, dd))"
proof -
  define devs where "devs = take (physicalDeviceCount e) (listedDevices e)"
  have lr: "listResult e = VK_SUCCESS \<or> listResult e = VK_INCOMPLETE"
    using assms(2) by simp
  have same: "VULKAN_INTERNAL_DeterminePhysicalDevice dd stack e =
      VULKAN_INTERNAL_DeterminePhysicalDevice dd stack (e\<lparr>listResult := VK_SUCCESS\<rparr>)"
    using assms by (simp add: VULKAN_INTERNAL_DeterminePhysicalDevice_def)
  have res: "(ret = 0 \<or> ret = 1) \<and>
      (ret = 1 \<longleftrightarrow>
         (\<exists>i<length devs. usable dd (devs ! i) (stack i) \<and>
            (\<forall>h\<in>set devs. device_priority (deviceType h) \<le> device_priority (deviceType (devs ! i))))) \<and>
      (ret = 1 \<longrightarrow>
         (\<exists>i<length devs. physicalDevice dd' = Some (devs ! i) \<and> usable dd (devs ! i) (stack i) \<and>
            (\<forall>h\<in>set devs. device_priority (deviceType h) \<le> device_priority (deviceType (devs ! i)))))"
    if r: "VULKAN_INTERNAL_DeterminePhysicalDevice dd stack e = Inr (ret, dd')" for ret dd'
  proof -
    have nz: "\<exists>i<length devs. physicalDevice dd' = Some (devs ! i) \<and> usable dd (devs ! i) (stack i) \<and>
            (\<forall>h\<in>set devs. device_priority (deviceType h) \<le> device_priority (deviceType (devs ! i)))"
      if "ret \<noteq> 0"
      using selection_nonzero [OF assms(1) r that] unfolding devs_def .
    have z: "ret = 1"
      if "\<exists>i<length devs. usable dd (devs ! i) (stack i) \<and>
            (\<forall>h\<in>set devs. device_priority (deviceType h) \<le> device_priority (deviceType (devs ! i)))"
    proof -
      from that obtain i where "i < length devs" "usable dd (devs ! i) (stack i)"
        "\<forall>h\<in>set devs. device_priority (deviceType h) \<le> device_priority (deviceType (devs ! i))"
        by blast
      then show ?thesis
        using selection_zero [OF assms(1) lr r, of i] unfolding devs_def by blast
    qed
    have "ret = 0 \<or> ret = 1"
    proof (cases "ret = 0")
      case False
      from nz [OF False] have "\<exists>i<length devs. usable dd (devs ! i) (stack i) \<and>
            (\<forall>h\<in>set devs. device_priority (deviceType h) \<le> device_priority (deviceType (devs ! i)))"
        by blast
      from z [OF this] show ?thesis by simp
    qed simp
    moreover have "ret = 1 \<Longrightarrow> ret \<noteq> 0" by simp
    ultimately show ?thesis using nz z by blast
  qed
  have rets: "(\<forall>i<length devs. check_returns dd (devs ! i) (stack i)) \<longrightarrow>
      (\<exists>ret dd'. VULKAN_INTERNAL_DeterminePhysicalDevice dd stack e = Inr (ret, dd'))"
    using selection_returns [of e dd stack] unfolding devs_def by blast
  have flt: "\<forall>f. VULKAN_INTERNAL_DeterminePhysicalDevice dd stack e = Inl f \<longrightarrow>
      (\<exists>i<length devs.
         VULKAN_INTERNAL_IsDeviceSuitable dd (devs ! i) (stack i) zeroed_extensions 0 0 = Inl f)"
    using selection_fault [of dd stack e] unfolding devs_def by blast
  have other: "\<forall>res. res \<noteq> VK_SUCCESS \<and> res \<noteq> VK_INCOMPLETE \<and> physicalDeviceCount e \<noteq> 0 \<longrightarrow>
      VULKAN_INTERNAL_DeterminePhysicalDevice dd stack (e\<lparr>listResult := res\<rparr>) = Inr (0, dd)"
    using assms(1) by (simp add: VULKAN_INTERNAL_DeterminePhysicalDevice_def)
  from same res rets flt other show ?thesis unfolding devs_def by blast
qed

theorem incomplete_enumeration_is_success_witness:
  "VULKAN_INTERNAL_DeterminePhysicalDevice zeroed_deviceData zeroed_stack
     (example_enumeration VK_INCOMPLETE
        [example_adapter VK_PHYSICAL_DEVICE_TYPE_INTEGRATED_GPU required_extension_names,
         example_adapter VK_PHYSICAL_DEVICE_TYPE_CPU []]) =
     Inr (1, \<lparr>physicalDevice =
                Some (example_adapter VK_PHYSICAL_DEVICE_TYPE_INTEGRATED_GPU
                        required_extension_names),
              queueFamilyIndex = 2,
              supportedExtensions =
                zeroed_extensions\<lparr>KHR_swapchain := True, KHR_maintenance1 := True,
                  KHR_dedicated_allocation := True, KHR_get_memory_requirements2 := True\<rparr>\<rparr>) \<and>
   usable zeroed_deviceData
     (example_adapter VK_PHYSICAL_DEVICE_TYPE_INTEGRATED_GPU required_extension_names)
     (zeroed_stack 0) \<and>
   check_returns zeroed_deviceData (example_adapter VK_PHYSICAL_DEVICE_TYPE_CPU [])
     (zeroed_stack 1) \<and>
   VULKAN_INTERNAL_DeterminePhysicalDevice zeroed_deviceData zeroed_stack
     (example_enumeration VK_ERROR_DEVICE_LOST
        [example_adapter VK_PHYSICAL_DEVICE_TYPE_INTEGRATED_GPU required_extension_names,
         example_adapter VK_PHYSICAL_DEVICE_TYPE_CPU []]) = Inr (0, zeroed_deviceData) \<and>
   VULKAN_INTERNAL_DeterminePhysicalDevice zeroed_deviceData reused_stack
     (example_enumeration VK_INCOMPLETE
        [example_adapter VK_PHYSICAL_DEVICE_TYPE_DISCRETE_GPU required_extension_names,
         adapter_without_present VK_PHYSICAL_DEVICE_TYPE_DISCRETE_GPU]) = Inl DoubleFree"
  using incomplete_enumeration_is_success
    [of "example_enumeration VK_INCOMPLETE
             [example_adapter VK_PHYSICAL_DEVICE_TYPE_INTEGRATED_GPU required_extension_names,
              example_adapter VK_PHYSICAL_DEVICE_TYPE_CPU []]" zeroed_deviceData zeroed_stack]
  by (simp add: selection_eval)


section \<open>Properties of the command buffer pools\<close>

lemma AllocateCommandBuffers_loop_numeral:
  "AllocateCommandBuffers_loop commandBuffers i (numeral k) (heap, pool) =
     (if inactiveCommandBufferCount pool < length (inactiveCommandBuffers pool)
      then AllocateCommandBuffers_loop commandBuffers (i + 1) (pred_numeral k)
             (heap @ [\<lparr>commandBuffer = commandBuffers i, commandPool = threadID pool,
                        submitted = 0\<rparr>],
              pool\<lparr>inactiveCommandBuffers :=
                     (inactiveCommandBuffers pool)[inactiveCommandBufferCount pool := length heap],
                   inactiveCommandBufferCount :=
                     (inactiveCommandBufferCount pool + 1) mod 2 ^ 32\<rparr>)
      else Inl OutOfBounds)"
  by (simp add: numeral_eq_Suc Let_def)

lemma acquire_sequence_numeral:
  "acquire_sequence drv tid (numeral k) w =
     (case VULKAN_INTERNAL_GetInactiveCommandBufferFromPool drv w tid of
        Inl f \<Rightarrow> Inl f
      | Inr (buffer, w1) \<Rightarrow>
          (case acquire_sequence drv tid (pred_numeral k) w1 of
             Inl f \<Rightarrow> Inl f
           | Inr (buffers, w2) \<Rightarrow> Inr (buffer # buffers, w2)))"
  by (simp add: numeral_eq_Suc)

lemmas pool_eval =
  VULKAN_INTERNAL_GetInactiveCommandBufferFromPool_def VULKAN_INTERNAL_FetchCommandPool_def
  VULKAN_INTERNAL_AllocateCommandBuffers_def SDL_realloc_slots_def initial_world_def
  serving_driver_def exhausted_driver_def free_list_def pool_ok_def Let_def
  AllocateCommandBuffers_loop_numeral acquire_sequence_numeral

lemma AllocateCommandBuffers_loop_ok:
  assumes "inactiveCommandBufferCount pool + n \<le> length (inactiveCommandBuffers pool)"
      and "length (inactiveCommandBuffers pool) < 2 ^ 32"
  shows "\<exists>heap' pool'. AllocateCommandBuffers_loop cb i n (heap, pool) = Inr (heap', pool') \<and>
     length heap' = length heap + n \<and> take (length heap) heap' = heap \<and>
     inactiveCommandBufferCount pool' = inactiveCommandBufferCount pool + n \<and>
     length (inactiveCommandBuffers pool') = length (inactiveCommandBuffers pool) \<and>
     inactiveCommandBufferCapacity pool' = inactiveCommandBufferCapacity pool \<and>
     threadID pool' = threadID pool \<and> vkCommandPool pool' = vkCommandPool pool \<and>
     (\<forall>k<inactiveCommandBufferCount pool.
        inactiveCommandBuffers pool' ! k = inactiveCommandBuffers pool ! k) \<and>
     (\<forall>k<n. inactiveCommandBuffers pool' ! (inactiveCommandBufferCount pool + k) = length heap + k)"
  using assms
proof (induction n arbitrary: i heap pool)
  case 0
  then show ?case by simp
next
  case (Suc n)
  define c where "c = inactiveCommandBufferCount pool"
  define heap1 where "heap1 = heap @ [\<lparr>commandBuffer = cb i, commandPool = threadID pool,
                           submitted = 0\<rparr>]"
  define pool1 where "pool1 = pool\<lparr>inactiveCommandBuffers :=
                     (inactiveCommandBuffers pool)[c := length heap],
                   inactiveCommandBufferCount := (c + 1) mod 2 ^ 32\<rparr>"
  have lt: "c < length (inactiveCommandBuffers pool)" using Suc.prems c_def by simp
  have "c + 1 < (2::nat) ^ 32" using lt Suc.prems(2) by linarith
  then have c1: "Suc c mod 4294967296 = Suc c" by simp
  have step: "AllocateCommandBuffers_loop cb i (Suc n) (heap, pool) =
      AllocateCommandBuffers_loop cb (i + 1) n (heap1, pool1)"
    using lt by (simp add: Let_def c_def heap1_def pool1_def)
  have pre1: "inactiveCommandBufferCount pool1 + n \<le> length (inactiveCommandBuffers pool1)"
    using Suc.prems c1 by (simp add: pool1_def c_def)
  have pre2: "length (inactiveCommandBuffers pool1) < 2 ^ 32"
    using Suc.prems by (simp add: pool1_def)
  from Suc.IH [OF pre1 pre2, of "i + 1" heap1] obtain heap' pool' where
    r: "AllocateCommandBuffers_loop cb (i + 1) n (heap1, pool1) = Inr (heap', pool')" and
    h1: "length heap' = length heap1 + n" and h2: "take (length heap1) heap' = heap1" and
    p1: "inactiveCommandBufferCount pool' = inactiveCommandBufferCount pool1 + n" and
    p2: "length (inactiveCommandBuffers pool') = length (inactiveCommandBuffers pool1)" and
    p3: "inactiveCommandBufferCapacity pool' = inactiveCommandBufferCapacity pool1" and
    p4: "threadID pool' = threadID pool1" and p5: "vkCommandPool pool' = vkCommandPool pool1" and
    old: "\<forall>k<inactiveCommandBufferCount pool1.
        inactiveCommandBuffers pool' ! k = inactiveCommandBuffers pool1 ! k" and
    new: "\<forall>k<n. inactiveCommandBuffers pool' ! (inactiveCommandBufferCount pool1 + k) =
        length heap1 + k"
    by blast
  have cnt1: "inactiveCommandBufferCount pool1 = c + 1" by (simp add: pool1_def c1)
  have "take (length heap) heap' = take (length heap) (take (length heap1) heap')"
    by (simp add: heap1_def min_def)
  also have "\<dots> = take (length heap) heap1" using h2 by simp
  also have "\<dots> = heap" by (simp add: heap1_def)
  finally have t: "take (length heap) heap' = heap" .
  have old': "\<forall>k<c. inactiveCommandBuffers pool' ! k = inactiveCommandBuffers pool ! k"
    using old cnt1 by (simp add: pool1_def)
  have new': "\<forall>k<Suc n. inactiveCommandBuffers pool' ! (c + k) = length heap + k"
  proof (intro allI impI)
    fix k assume k: "k < Suc n"
    show "inactiveCommandBuffers pool' ! (c + k) = length heap + k"
    proof (cases k)
      case 0
      have "inactiveCommandBuffers pool' ! c = inactiveCommandBuffers pool1 ! c"
        using old cnt1 by simp
      also have "\<dots> = length heap" using lt by (simp add: pool1_def)
      finally show ?thesis using 0 by simp
    next
      case (Suc m)
      then have "m < n" using k by simp
      with new cnt1 have "inactiveCommandBuffers pool' ! (c + 1 + m) = length heap1 + m" by simp
      then show ?thesis using Suc by (simp add: heap1_def)
    qed
  qed
  show ?case
    using step r h1 t p1 p2 p3 p4 p5 old' new' cnt1
    by (simp add: c_def [symmetric] heap1_def pool1_def)
qed

lemma AllocateCommandBuffers_loop_Inr:
  assumes "AllocateCommandBuffers_loop cb i n (heap, pool) = Inr r"
      and "length (inactiveCommandBuffers pool) < 2 ^ 32"
      and "inactiveCommandBufferCount pool \<le> length (inactiveCommandBuffers pool)"
  shows "inactiveCommandBufferCount pool + n \<le> length (inactiveCommandBuffers pool)"
  using assms
proof (induction n arbitrary: i heap pool)
  case 0
  then show ?case by simp
next
  case (Suc n)
  define c where "c = inactiveCommandBufferCount pool"
  define pool1 where "pool1 = pool\<lparr>inactiveCommandBuffers :=
                     (inactiveCommandBuffers pool)[c := length heap],
                   inactiveCommandBufferCount := (c + 1) mod 2 ^ 32\<rparr>"
  have lt: "c < length (inactiveCommandBuffers pool)"
    using Suc.prems(1) by (auto simp: Let_def c_def split: if_splits)
  have "c + 1 < (2::nat) ^ 32" using lt Suc.prems(2) by linarith
  then have c1: "Suc c mod 4294967296 = Suc c" by simp
  have r: "AllocateCommandBuffers_loop cb (i + 1) n
      (heap @ [\<lparr>commandBuffer = cb i, commandPool = threadID pool, submitted = 0\<rparr>], pool1) = Inr r"
    using Suc.prems(1) lt by (simp add: Let_def c_def pool1_def)
  have "inactiveCommandBufferCount pool1 + n \<le> length (inactiveCommandBuffers pool1)"
    by (rule Suc.IH [OF r]) (use lt Suc.prems(2) c1 in \<open>simp_all add: pool1_def\<close>)
  then show ?case using c1 by (simp add: pool1_def c_def)
qed

lemma length_SDL_realloc_slots [simp]: "length (SDL_realloc_slots n slots) = n"
  by (simp add: SDL_realloc_slots_def)

lemma AllocateCommandBuffers_failure:
  assumes "fst (vkAllocateCommandBuffers drv (nativeCalls w) (vkCommandPool pool) n) \<noteq> VK_SUCCESS"
  shows "VULKAN_INTERNAL_AllocateCommandBuffers drv w pool n =
     Inr (w\<lparr>nativeCalls := nativeCalls w @ [AllocateCommandBuffers (vkCommandPool pool) n]\<rparr>,
          pool\<lparr>inactiveCommandBufferCapacity := (inactiveCommandBufferCapacity pool + n) mod 2 ^ 32,
               inactiveCommandBuffers :=
                 SDL_realloc_slots ((inactiveCommandBufferCapacity pool + n) mod 2 ^ 32)
                   (inactiveCommandBuffers pool)\<rparr>)"
  using assms
  by (simp add: VULKAN_INTERNAL_AllocateCommandBuffers_def Let_def case_prod_beta)

lemma AllocateCommandBuffers_success:
  assumes ok: "fst (vkAllocateCommandBuffers drv (nativeCalls w) (vkCommandPool pool) n) = VK_SUCCESS"
      and empty: "inactiveCommandBufferCount pool = 0"
      and len: "length (inactiveCommandBuffers pool) = inactiveCommandBufferCapacity pool"
      and fits: "inactiveCommandBufferCapacity pool + n < 2 ^ 32"
  shows "\<exists>w' pool'. VULKAN_INTERNAL_AllocateCommandBuffers drv w pool n = Inr (w', pool') \<and>
     commandPoolHashTable w' = commandPoolHashTable w \<and>
     nativeCalls w' = nativeCalls w @ [AllocateCommandBuffers (vkCommandPool pool) n] \<and>
     length (wrappers w') = length (wrappers w) + n \<and>
     take (length (wrappers w)) (wrappers w') = wrappers w \<and>
     inactiveCommandBufferCapacity pool' = inactiveCommandBufferCapacity pool + n \<and>
     length (inactiveCommandBuffers pool') = inactiveCommandBufferCapacity pool + n \<and>
     inactiveCommandBufferCount pool' = n \<and>
     take n (inactiveCommandBuffers pool') = [length (wrappers w)..<length (wrappers w) + n] \<and>
     threadID pool' = threadID pool \<and> vkCommandPool pool' = vkCommandPool pool"
proof -
  define cap where "cap = inactiveCommandBufferCapacity pool + n"
  define pool1 where "pool1 = pool\<lparr>inactiveCommandBufferCapacity := cap,
      inactiveCommandBuffers := SDL_realloc_slots cap (inactiveCommandBuffers pool)\<rparr>"
  define cb where "cb = snd (vkAllocateCommandBuffers drv (nativeCalls w) (vkCommandPool pool) n)"
  define w1 where "w1 = w\<lparr>nativeCalls :=
      nativeCalls w @ [AllocateCommandBuffers (vkCommandPool pool) n]\<rparr>"
  have capmod: "cap mod 2 ^ 32 = cap" using fits by (simp add: cap_def)
  have pre1: "inactiveCommandBufferCount pool1 + n \<le> length (inactiveCommandBuffers pool1)"
    using empty by (simp add: pool1_def cap_def)
  have pre2: "length (inactiveCommandBuffers pool1) < 2 ^ 32"
    using fits by (simp add: pool1_def cap_def)
  from AllocateCommandBuffers_loop_ok [OF pre1 pre2, of cb 0 "wrappers w1"]
  obtain heap' pool' where
    r: "AllocateCommandBuffers_loop cb 0 n (wrappers w1, pool1) = Inr (heap', pool')" and
    h1: "length heap' = length (wrappers w1) + n" and
    h2: "take (length (wrappers w1)) heap' = wrappers w1" and
    p1: "inactiveCommandBufferCount pool' = inactiveCommandBufferCount pool1 + n" and
    p2: "length (inactiveCommandBuffers pool') = length (inactiveCommandBuffers pool1)" and
    p3: "inactiveCommandBufferCapacity pool' = inactiveCommandBufferCapacity pool1" and
    p4: "threadID pool' = threadID pool1" and p5: "vkCommandPool pool' = vkCommandPool pool1" and
    new: "\<forall>k<n. inactiveCommandBuffers pool' ! (inactiveCommandBufferCount pool1 + k) =
        length (wrappers w1) + k"
    by blast
  have call: "VULKAN_INTERNAL_AllocateCommandBuffers drv w pool n = Inr (w1\<lparr>wrappers := heap'\<rparr>, pool')"
    using ok r capmod
    by (simp add: VULKAN_INTERNAL_AllocateCommandBuffers_def Let_def cap_def pool1_def cb_def
        w1_def case_prod_beta)
  have cnt: "inactiveCommandBufferCount pool1 = 0" using empty by (simp add: pool1_def)
  have "take n (inactiveCommandBuffers pool') = [length (wrappers w)..<length (wrappers w) + n]"
  proof (rule nth_equalityI)
    show "length (take n (inactiveCommandBuffers pool')) =
        length [length (wrappers w)..<length (wrappers w) + n]"
      using p2 by (simp add: pool1_def cap_def)
  next
    fix k assume "k < length (take n (inactiveCommandBuffers pool'))"
    then have k: "k < n" by simp
    with new cnt have "inactiveCommandBuffers pool' ! k = length (wrappers w1) + k" by simp
    with k show "take n (inactiveCommandBuffers pool') ! k =
        [length (wrappers w)..<length (wrappers w) + n] ! k"
      by (simp add: w1_def)
  qed
  with call h1 h2 p1 p2 p3 p4 p5 cnt show ?thesis
    by (simp add: w1_def pool1_def cap_def)
qed

lemma AllocateCommandBuffers_fits:
  assumes call: "VULKAN_INTERNAL_AllocateCommandBuffers drv w pool n = Inr r"
      and ok: "fst (vkAllocateCommandBuffers drv (nativeCalls w) (vkCommandPool pool) n) = VK_SUCCESS"
      and empty: "inactiveCommandBufferCount pool = 0"
      and cap: "inactiveCommandBufferCapacity pool < 2 ^ 32" and n: "n < 2 ^ 32"
  shows "inactiveCommandBufferCapacity pool + n < 2 ^ 32"
proof -
  define cap where "cap = (inactiveCommandBufferCapacity pool + n) mod 2 ^ 32"
  define pool1 where "pool1 = pool\<lparr>inactiveCommandBufferCapacity := cap,
      inactiveCommandBuffers := SDL_realloc_slots cap (inactiveCommandBuffers pool)\<rparr>"
  from call ok obtain r' where
    "AllocateCommandBuffers_loop
       (snd (vkAllocateCommandBuffers drv (nativeCalls w) (vkCommandPool pool) n)) 0 n
       (wrappers w, pool1) = Inr r'"
    by (auto simp: VULKAN_INTERNAL_AllocateCommandBuffers_def Let_def cap_def pool1_def
        case_prod_beta split: sum.splits)
  then have "inactiveCommandBufferCount pool1 + n \<le> length (inactiveCommandBuffers pool1)"
    by (rule AllocateCommandBuffers_loop_Inr) (simp_all add: pool1_def cap_def empty)
  then have le: "n \<le> (inactiveCommandBufferCapacity pool + n) mod 2 ^ 32"
    by (simp add: pool1_def cap_def empty)
  show ?thesis
  proof (rule ccontr)
    assume "\<not> inactiveCommandBufferCapacity pool + n < 2 ^ 32"
    then have ge: "(2::nat) ^ 32 \<le> inactiveCommandBufferCapacity pool + n" by simp
    then have "(inactiveCommandBufferCapacity pool + n) mod 2 ^ 32 =
        (inactiveCommandBufferCapacity pool + n - 2 ^ 32) mod 2 ^ 32"
      by (rule le_mod_geq)
    also have "\<dots> = inactiveCommandBufferCapacity pool + n - 2 ^ 32"
      using cap n by (intro mod_less) linarith
    finally show False using le cap ge by linarith
  qed
qed

lemma FetchCommandPool_miss:
  assumes miss: "commandPoolHashTable w tid = None"
      and ok: "fst (vkCreateCommandPool drv (nativeCalls w)) = VK_SUCCESS"
  shows "\<exists>w' pool. VULKAN_INTERNAL_FetchCommandPool drv w tid = Inr (w', Some pool) \<and>
     commandPoolHashTable w' = (commandPoolHashTable w)(tid \<mapsto> pool) \<and>
     inactiveCommandBufferCapacity pool = 2 \<and> length (inactiveCommandBuffers pool) = 2 \<and>
     threadID pool = tid \<and>
     take (length (wrappers w)) (wrappers w') = wrappers w \<and>
     ((inactiveCommandBufferCount pool = 0 \<and> wrappers w' = wrappers w) \<or>
      (inactiveCommandBufferCount pool = 2 \<and> length (wrappers w') = length (wrappers w) + 2 \<and>
       inactiveCommandBuffers pool = [length (wrappers w), length (wrappers w) + 1]))"
proof -
  define handle where "handle = snd (vkCreateCommandPool drv (nativeCalls w))"
  define w1 where "w1 = w\<lparr>nativeCalls := nativeCalls w @ [CreateCommandPool]\<rparr>"
  define pool0 where "pool0 = \<lparr>threadID = tid, vkCommandPool = handle, inactiveCommandBuffers = [],
      inactiveCommandBufferCapacity = 0, inactiveCommandBufferCount = 0\<rparr>"
  have fetch: "VULKAN_INTERNAL_FetchCommandPool drv w tid =
      (case VULKAN_INTERNAL_AllocateCommandBuffers drv w1 pool0 2 of
         Inl f \<Rightarrow> Inl f
       | Inr (w2, pool) \<Rightarrow>
           Inr (w2\<lparr>commandPoolHashTable := (commandPoolHashTable w2)(tid \<mapsto> pool)\<rparr>, Some pool))"
    using miss ok
    by (simp add: VULKAN_INTERNAL_FetchCommandPool_def Let_def case_prod_beta handle_def w1_def
        pool0_def)
  show ?thesis
  proof (cases "fst (vkAllocateCommandBuffers drv (nativeCalls w1) (vkCommandPool pool0) 2) = VK_SUCCESS")
    case False
    from AllocateCommandBuffers_failure [OF False] fetch show ?thesis
      by (simp add: w1_def pool0_def SDL_realloc_slots_def)
  next
    case True
    from AllocateCommandBuffers_success [OF True, of ] obtain w2 pool where
      a: "VULKAN_INTERNAL_AllocateCommandBuffers drv w1 pool0 2 = Inr (w2, pool)" and
      b: "commandPoolHashTable w2 = commandPoolHashTable w1"
         "length (wrappers w2) = length (wrappers w1) + 2"
         "take (length (wrappers w1)) (wrappers w2) = wrappers w1"
         "inactiveCommandBufferCapacity pool = inactiveCommandBufferCapacity pool0 + 2"
         "length (inactiveCommandBuffers pool) = inactiveCommandBufferCapacity pool0 + 2"
         "inactiveCommandBufferCount pool = 2"
         "take 2 (inactiveCommandBuffers pool) = [length (wrappers w1)..<length (wrappers w1) + 2]"
         "threadID pool = threadID pool0"
      by (auto simp: pool0_def)
    from b(5,7) have "inactiveCommandBuffers pool = [length (wrappers w1), length (wrappers w1) + 1]"
      by (simp add: pool0_def upt_rec)
    with a b fetch show ?thesis
      by (simp add: w1_def pool0_def)
  qed
qed

lemma FetchCommandPool_hit:
  "commandPoolHashTable w tid = Some pool \<Longrightarrow>
     VULKAN_INTERNAL_FetchCommandPool drv w tid = Inr (w, Some pool)"
  by (simp add: VULKAN_INTERNAL_FetchCommandPool_def)

lemma uint32_decrement:
  assumes "0 < c" and "c < 4294967296"
  shows "(4294967295 + c) mod 4294967296 = c - Suc 0"
proof -
  have "4294967295 + c = (c - 1) + 1 * 4294967296" using assms(1) by simp
  then have "(4294967295 + c) mod 4294967296 = (c - 1) mod 4294967296"
    by (simp only: mod_mult_self1)
  also have "\<dots> = c - 1" using assms(2) by (intro mod_less) linarith
  finally show ?thesis by simp
qed

lemma GetInactive_pop:
  assumes tab: "commandPoolHashTable w tid = Some pool"
      and pos: "0 < inactiveCommandBufferCount pool"
      and le: "inactiveCommandBufferCount pool \<le> length (inactiveCommandBuffers pool)"
      and len: "length (inactiveCommandBuffers pool) < 2 ^ 32"
  shows "VULKAN_INTERNAL_GetInactiveCommandBufferFromPool drv w tid =
     Inr (inactiveCommandBuffers pool ! (inactiveCommandBufferCount pool - 1),
          w\<lparr>commandPoolHashTable :=
               (commandPoolHashTable w)
                 (tid \<mapsto> pool\<lparr>inactiveCommandBufferCount := inactiveCommandBufferCount pool - 1\<rparr>)\<rparr>)"
proof -
  have "inactiveCommandBufferCount pool < 4294967296" using le len by simp
  from uint32_decrement [OF pos this]
  have d: "(4294967295 + inactiveCommandBufferCount pool) mod 4294967296 =
      inactiveCommandBufferCount pool - Suc 0" .
  have "inactiveCommandBufferCount pool - Suc 0 < length (inactiveCommandBuffers pool)"
    using pos le by linarith
  with pos show ?thesis
    by (simp add: VULKAN_INTERNAL_GetInactiveCommandBufferFromPool_def
        FetchCommandPool_hit [OF tab] Let_def d)
qed

lemma GetInactive_grow:
  assumes tab: "commandPoolHashTable w tid = Some pool"
      and empty: "inactiveCommandBufferCount pool = 0"
      and len: "length (inactiveCommandBuffers pool) = inactiveCommandBufferCapacity pool"
      and pos: "0 < inactiveCommandBufferCapacity pool"
      and fits: "2 * inactiveCommandBufferCapacity pool < 2 ^ 32"
      and ok: "fst (vkAllocateCommandBuffers drv (nativeCalls w) (vkCommandPool pool)
                 (inactiveCommandBufferCapacity pool)) = VK_SUCCESS"
  shows "\<exists>w' pool'. VULKAN_INTERNAL_GetInactiveCommandBufferFromPool drv w tid =
       Inr (length (wrappers w) + inactiveCommandBufferCapacity pool - 1, w') \<and>
     commandPoolHashTable w' = (commandPoolHashTable w)(tid \<mapsto> pool') \<and>
     inactiveCommandBufferCapacity pool' = 2 * inactiveCommandBufferCapacity pool \<and>
     length (inactiveCommandBuffers pool') = 2 * inactiveCommandBufferCapacity pool \<and>
     inactiveCommandBufferCount pool' = inactiveCommandBufferCapacity pool - 1 \<and>
     take (inactiveCommandBufferCapacity pool - 1) (inactiveCommandBuffers pool') =
       [length (wrappers w)..<length (wrappers w) + inactiveCommandBufferCapacity pool - 1] \<and>
     length (wrappers w') = length (wrappers w) + inactiveCommandBufferCapacity pool \<and>
     take (length (wrappers w)) (wrappers w') = wrappers w \<and>
     nativeCalls w' = nativeCalls w @
       [AllocateCommandBuffers (vkCommandPool pool) (inactiveCommandBufferCapacity pool)]"
proof -
  define C where "C = inactiveCommandBufferCapacity pool"
  define h where "h = length (wrappers w)"
  have fits': "inactiveCommandBufferCapacity pool + C < 2 ^ 32" using fits by (simp add: C_def)
  from AllocateCommandBuffers_success [OF ok [folded C_def] empty len fits'] obtain w2 pool2 where
    a: "VULKAN_INTERNAL_AllocateCommandBuffers drv w pool C = Inr (w2, pool2)" and
    b: "commandPoolHashTable w2 = commandPoolHashTable w"
       "nativeCalls w2 = nativeCalls w @ [AllocateCommandBuffers (vkCommandPool pool) C]"
       "length (wrappers w2) = h + C"
       "take h (wrappers w2) = wrappers w"
       "inactiveCommandBufferCapacity pool2 = C + C"
       "length (inactiveCommandBuffers pool2) = C + C"
       "inactiveCommandBufferCount pool2 = C"
       "take C (inactiveCommandBuffers pool2) = [h..<h + C]"
    unfolding C_def h_def by blast
  have Cpos: "0 < C" using pos by (simp add: C_def)
  have "C < 4294967296" using fits by (simp add: C_def)
  from uint32_decrement [OF Cpos this] have d: "(4294967295 + C) mod 4294967296 = C - Suc 0" .
  have inb: "C - Suc 0 < length (inactiveCommandBuffers pool2)" using b(6) Cpos by linarith
  have "inactiveCommandBuffers pool2 ! (C - 1) = take C (inactiveCommandBuffers pool2) ! (C - 1)"
    using Cpos by simp
  also have "\<dots> = h + C - 1" using Cpos by (simp add: b(8))
  finally have nth: "inactiveCommandBuffers pool2 ! (C - 1) = h + C - 1" .
  have "take (C - 1) (inactiveCommandBuffers pool2) = take (C - 1) (take C (inactiveCommandBuffers pool2))"
    by (simp add: min_def)
  also have "\<dots> = [h..<h + C - 1]" using Cpos by (simp add: b(8) take_upt)
  finally have tk: "take (C - 1) (inactiveCommandBuffers pool2) = [h..<h + C - 1]" .
  have call: "VULKAN_INTERNAL_GetInactiveCommandBufferFromPool drv w tid =
      Inr (h + C - 1,
           w2\<lparr>commandPoolHashTable :=
                (commandPoolHashTable w2)(tid \<mapsto> pool2\<lparr>inactiveCommandBufferCount := C - 1\<rparr>)\<rparr>)"
    using empty a inb nth
    by (simp add: VULKAN_INTERNAL_GetInactiveCommandBufferFromPool_def
        FetchCommandPool_hit [OF tab] Let_def C_def [symmetric] b(7) d)
  show ?thesis
    using call b tk unfolding C_def [symmetric] h_def [symmetric]
    by (intro exI [of _ "w2\<lparr>commandPoolHashTable :=
                (commandPoolHashTable w2)(tid \<mapsto> pool2\<lparr>inactiveCommandBufferCount := C - 1\<rparr>)\<rparr>"]
              exI [of _ "pool2\<lparr>inactiveCommandBufferCount := C - 1\<rparr>"]) simp
qed

lemma GetInactive_grow_Inr:
  assumes tab: "commandPoolHashTable w tid = Some pool"
      and empty: "inactiveCommandBufferCount pool = 0"
      and len: "length (inactiveCommandBuffers pool) = inactiveCommandBufferCapacity pool"
      and cap: "inactiveCommandBufferCapacity pool < 2 ^ 32"
      and r: "VULKAN_INTERNAL_GetInactiveCommandBufferFromPool drv w tid = Inr r"
  shows "fst (vkAllocateCommandBuffers drv (nativeCalls w) (vkCommandPool pool)
                 (inactiveCommandBufferCapacity pool)) = VK_SUCCESS \<and>
         0 < inactiveCommandBufferCapacity pool \<and>
         2 * inactiveCommandBufferCapacity pool < 2 ^ 32"
proof -
  define C where "C = inactiveCommandBufferCapacity pool"
  from r empty obtain w2 pool2 where
    a: "VULKAN_INTERNAL_AllocateCommandBuffers drv w pool C = Inr (w2, pool2)" and
    inb: "(4294967295 + inactiveCommandBufferCount pool2) mod 4294967296
            < length (inactiveCommandBuffers pool2)"
    by (auto simp: VULKAN_INTERNAL_GetInactiveCommandBufferFromPool_def
        FetchCommandPool_hit [OF tab] Let_def C_def split: sum.splits if_splits)
  have ok: "fst (vkAllocateCommandBuffers drv (nativeCalls w) (vkCommandPool pool) C) = VK_SUCCESS"
  proof (rule ccontr)
    assume "fst (vkAllocateCommandBuffers drv (nativeCalls w) (vkCommandPool pool) C) \<noteq> VK_SUCCESS"
    from AllocateCommandBuffers_failure [OF this] a
    have "inactiveCommandBufferCount pool2 = 0" "length (inactiveCommandBuffers pool2) < 4294967296"
      using empty by auto
    with inb show False by simp
  qed
  have fits: "inactiveCommandBufferCapacity pool + C < 2 ^ 32"
    by (rule AllocateCommandBuffers_fits [OF a ok empty cap]) (use cap in \<open>simp add: C_def\<close>)
  from AllocateCommandBuffers_success [OF ok empty len fits] a
  have "inactiveCommandBufferCount pool2 = C" "length (inactiveCommandBuffers pool2) = C + C"
    by (auto simp: C_def)
  with inb have "0 < C" by (cases "C = 0") simp_all
  with ok fits show ?thesis by (simp add: C_def)
qed

lemma GetInactive_after_fetch:
  assumes "VULKAN_INTERNAL_FetchCommandPool drv w tid = Inr (w1, Some pool)"
      and "commandPoolHashTable w1 tid = Some pool"
  shows "VULKAN_INTERNAL_GetInactiveCommandBufferFromPool drv w tid =
         VULKAN_INTERNAL_GetInactiveCommandBufferFromPool drv w1 tid"
  using assms
  by (simp add: VULKAN_INTERNAL_GetInactiveCommandBufferFromPool_def FetchCommandPool_hit)

lemma GetInactive_miss_Inr:
  assumes "commandPoolHashTable w tid = None"
      and "VULKAN_INTERNAL_GetInactiveCommandBufferFromPool drv w tid = Inr r"
  shows "fst (vkCreateCommandPool drv (nativeCalls w)) = VK_SUCCESS"
  using assms
  by (auto simp: VULKAN_INTERNAL_GetInactiveCommandBufferFromPool_def
      VULKAN_INTERNAL_FetchCommandPool_def Let_def case_prod_beta split: if_splits)

lemma acquire_step_hit:
  assumes tab: "commandPoolHashTable w tid = Some pool"
      and ok: "pool_ok w tid"
      and r: "VULKAN_INTERNAL_GetInactiveCommandBufferFromPool drv w tid = Inr (p, w')"
  shows "pool_ok w' tid \<and> length (wrappers w) \<le> length (wrappers w') \<and>
         p < length (wrappers w') \<and> p \<notin> set (free_list w' tid) \<and>
         set (p # free_list w' tid) \<subseteq> set (free_list w tid) \<union> {length (wrappers w)..<length (wrappers w')} \<and>
         length (free_list w' tid) + 1 =
           length (free_list w tid) + (length (wrappers w') - length (wrappers w))"
proof -
  define c where "c = inactiveCommandBufferCount pool"
  define arr where "arr = inactiveCommandBuffers pool"
  from ok tab have inv: "length arr = inactiveCommandBufferCapacity pool"
      "inactiveCommandBufferCapacity pool < 2 ^ 32" "c \<le> inactiveCommandBufferCapacity pool"
      "distinct (take c arr)" "\<forall>q\<in>set (take c arr). q < length (wrappers w)"
    by (auto simp: pool_ok_def free_list_def c_def arr_def list_all_iff)
  have fl: "free_list w tid = take c arr" using tab by (simp add: free_list_def c_def arr_def)
  show ?thesis
  proof (cases "c = 0")
    case False
    then have pos: "0 < inactiveCommandBufferCount pool" by (simp add: c_def)
    have le: "inactiveCommandBufferCount pool \<le> length (inactiveCommandBuffers pool)"
      using inv by (simp add: c_def arr_def)
    have len: "length (inactiveCommandBuffers pool) < 2 ^ 32" using inv by (simp add: arr_def)
    from GetInactive_pop [OF tab pos le len, of drv] r
    have p: "p = arr ! (c - 1)" and
      w': "w' = w\<lparr>commandPoolHashTable :=
               (commandPoolHashTable w)(tid \<mapsto> pool\<lparr>inactiveCommandBufferCount := c - 1\<rparr>)\<rparr>"
      by (simp_all add: c_def arr_def)
    have fl': "free_list w' tid = take (c - 1) arr" by (simp add: w' free_list_def arr_def)
    have wr: "wrappers w' = wrappers w" by (simp add: w')
    have split: "take c arr = take (c - 1) arr @ [p]"
      using False inv(1,3) p by (metis Suc_diff_1 le_simps(3) neq0_conv take_Suc_conv_app_nth
          order_less_le_trans less_le_not_le le_eq_less_or_eq)
    have "pool_ok w' tid"
    proof -
      have "commandPoolHashTable w' tid = Some (pool\<lparr>inactiveCommandBufferCount := c - 1\<rparr>)"
        by (simp add: w')
      moreover have "distinct (take (c - 1) arr)" using inv(4) split by simp
      moreover have "\<forall>q\<in>set (take (c - 1) arr). q < length (wrappers w')"
        using inv(5) split by (simp add: wr)
      ultimately show ?thesis
        using inv(1,2,3) by (simp add: pool_ok_def fl' list_all_iff arr_def [symmetric])
    qed
    moreover have "p < length (wrappers w')" using inv(5) split by (simp add: wr)
    moreover have "p \<notin> set (free_list w' tid)" using inv(4) split by (simp add: fl')
    moreover have "set (p # free_list w' tid) \<subseteq> set (free_list w tid) \<union> {length (wrappers w)..<length (wrappers w')}"
      using split by (auto simp: fl fl')
    moreover have "length (free_list w' tid) + 1 =
        length (free_list w tid) + (length (wrappers w') - length (wrappers w))"
      using False inv(1,3) by (simp add: fl fl' wr)
    ultimately show ?thesis by (simp add: wr)
  next
    case True
    then have empty: "inactiveCommandBufferCount pool = 0" by (simp add: c_def)
    have len: "length (inactiveCommandBuffers pool) = inactiveCommandBufferCapacity pool"
      using inv by (simp add: arr_def)
    from GetInactive_grow_Inr [OF tab empty len inv(2) r]
    have pre: "fst (vkAllocateCommandBuffers drv (nativeCalls w) (vkCommandPool pool)
                 (inactiveCommandBufferCapacity pool)) = VK_SUCCESS"
        "0 < inactiveCommandBufferCapacity pool" "2 * inactiveCommandBufferCapacity pool < 2 ^ 32"
      by simp_all
    define C where "C = inactiveCommandBufferCapacity pool"
    define h where "h = length (wrappers w)"
    from GetInactive_grow [OF tab empty len pre(2) pre(3) pre(1)] r obtain pool' where
      p: "p = h + C - 1" and
      g: "commandPoolHashTable w' = (commandPoolHashTable w)(tid \<mapsto> pool')"
         "inactiveCommandBufferCapacity pool' = 2 * C"
         "length (inactiveCommandBuffers pool') = 2 * C"
         "inactiveCommandBufferCount pool' = C - 1"
         "take (C - 1) (inactiveCommandBuffers pool') = [h..<h + C - 1]"
         "length (wrappers w') = h + C"
      unfolding C_def h_def by auto
    have fl': "free_list w' tid = [h..<h + C - 1]" using g by (simp add: free_list_def)
    have Cpos: "0 < C" using pre(2) by (simp add: C_def)
    have "pool_ok w' tid"
      using g pre(3) Cpos by (auto simp: pool_ok_def fl' C_def [symmetric] list_all_iff)
    moreover have "p < length (wrappers w')" using g Cpos p by simp
    moreover have "p \<notin> set (free_list w' tid)" using p Cpos by (simp add: fl')
    moreover have "set (p # free_list w' tid) \<subseteq> set (free_list w tid) \<union> {length (wrappers w)..<length (wrappers w')}"
      using p Cpos g(6) by (auto simp: fl' h_def)
    moreover have "length (free_list w' tid) + 1 =
        length (free_list w tid) + (length (wrappers w') - length (wrappers w))"
      using Cpos g(6) True by (simp add: fl fl' h_def)
    ultimately show ?thesis using g(6) by (simp add: h_def)
  qed
qed


lemma acquire_step:
  assumes ok: "pool_ok w tid"
      and r: "VULKAN_INTERNAL_GetInactiveCommandBufferFromPool drv w tid = Inr (p, w')"
  shows "pool_ok w' tid \<and> length (wrappers w) \<le> length (wrappers w') \<and>
         p < length (wrappers w') \<and> p \<notin> set (free_list w' tid) \<and>
         set (p # free_list w' tid) \<subseteq> set (free_list w tid) \<union> {length (wrappers w)..<length (wrappers w')} \<and>
         length (free_list w' tid) + 1 =
           length (free_list w tid) + (length (wrappers w') - length (wrappers w))"
proof (cases "commandPoolHashTable w tid")
  case (Some pool)
  from acquire_step_hit [OF Some ok r] show ?thesis .
next
  case None
  have created: "fst (vkCreateCommandPool drv (nativeCalls w)) = VK_SUCCESS"
    using None r by (rule GetInactive_miss_Inr)
  from FetchCommandPool_miss [OF None created, of ] obtain w1 pool where
    f: "VULKAN_INTERNAL_FetchCommandPool drv w tid = Inr (w1, Some pool)" and
    tab: "commandPoolHashTable w1 = (commandPoolHashTable w)(tid \<mapsto> pool)" and
    cap: "inactiveCommandBufferCapacity pool = 2" "length (inactiveCommandBuffers pool) = 2" and
    alt: "(inactiveCommandBufferCount pool = 0 \<and> wrappers w1 = wrappers w) \<or>
      (inactiveCommandBufferCount pool = 2 \<and> length (wrappers w1) = length (wrappers w) + 2 \<and>
       inactiveCommandBuffers pool = [length (wrappers w), length (wrappers w) + 1])"
    by blast
  have tab1: "commandPoolHashTable w1 tid = Some pool" by (simp add: tab)
  have fl0: "free_list w tid = []" using None by (simp add: free_list_def)
  have fl1: "free_list w1 tid = [] \<and> wrappers w1 = wrappers w \<or>
      free_list w1 tid = [length (wrappers w), length (wrappers w) + 1] \<and>
      length (wrappers w1) = length (wrappers w) + 2"
    using alt tab1 by (auto simp: free_list_def)
  have ok1: "pool_ok w1 tid"
    using fl1 cap alt tab1 by (auto simp: pool_ok_def)
  have r1: "VULKAN_INTERNAL_GetInactiveCommandBufferFromPool drv w1 tid = Inr (p, w')"
    using GetInactive_after_fetch [OF f tab1] r by simp
  from acquire_step_hit [OF tab1 ok1 r1] have s:
    "pool_ok w' tid" "length (wrappers w1) \<le> length (wrappers w')"
    "p < length (wrappers w')" "p \<notin> set (free_list w' tid)"
    "set (p # free_list w' tid) \<subseteq> set (free_list w1 tid) \<union> {length (wrappers w1)..<length (wrappers w')}"
    "length (free_list w' tid) + 1 =
       length (free_list w1 tid) + (length (wrappers w') - length (wrappers w1))"
    by blast+
  from fl1 show ?thesis
  proof
    assume a: "free_list w1 tid = [] \<and> wrappers w1 = wrappers w"
    with s fl0 show ?thesis by simp
  next
    assume a: "free_list w1 tid = [length (wrappers w), length (wrappers w) + 1] \<and>
      length (wrappers w1) = length (wrappers w) + 2"
    have "set (p # free_list w' tid) \<subseteq> {length (wrappers w)..<length (wrappers w')}"
      using s(5) s(2) a by auto
    moreover have "length (free_list w' tid) + 1 = length (wrappers w') - length (wrappers w)"
      using s(6) s(2) a by simp
    ultimately show ?thesis using s(1-4) a fl0 by simp
  qed
qed

lemma acquire_sequence_inv:
  assumes "pool_ok w tid" and "acquire_sequence drv tid n w = Inr (ps, w')"
  shows "pool_ok w' tid \<and> length (wrappers w) \<le> length (wrappers w') \<and>
         length ps = n \<and> distinct ps \<and>
         (\<forall>p\<in>set ps. p < length (wrappers w')) \<and>
         set ps \<inter> set (free_list w' tid) = {} \<and>
         set ps \<union> set (free_list w' tid) \<subseteq>
           set (free_list w tid) \<union> {length (wrappers w)..<length (wrappers w')} \<and>
         length (free_list w' tid) + n =
           length (free_list w tid) + (length (wrappers w') - length (wrappers w))"
  using assms
proof (induction n arbitrary: w ps)
  case 0
  then show ?case by simp
next
  case (Suc n)
  from Suc.prems(2) obtain p w1 ps' where
    g: "VULKAN_INTERNAL_GetInactiveCommandBufferFromPool drv w tid = Inr (p, w1)" and
    rest: "acquire_sequence drv tid n w1 = Inr (ps', w')" and ps: "ps = p # ps'"
    by (auto split: sum.splits)
  from acquire_step [OF Suc.prems(1) g] have s:
    "pool_ok w1 tid" "length (wrappers w) \<le> length (wrappers w1)"
    "p < length (wrappers w1)" "p \<notin> set (free_list w1 tid)"
    "set (p # free_list w1 tid) \<subseteq> set (free_list w tid) \<union> {length (wrappers w)..<length (wrappers w1)}"
    "length (free_list w1 tid) + 1 =
       length (free_list w tid) + (length (wrappers w1) - length (wrappers w))"
    by blast+
  from Suc.IH [OF s(1) rest] have i:
    "pool_ok w' tid" "length (wrappers w1) \<le> length (wrappers w')"
    "length ps' = n" "distinct ps'" "\<forall>q\<in>set ps'. q < length (wrappers w')"
    "set ps' \<inter> set (free_list w' tid) = {}"
    "set ps' \<union> set (free_list w' tid) \<subseteq>
       set (free_list w1 tid) \<union> {length (wrappers w1)..<length (wrappers w')}"
    "length (free_list w' tid) + n =
       length (free_list w1 tid) + (length (wrappers w') - length (wrappers w1))"
    by blast+
  have A1: "{length (wrappers w)..<length (wrappers w1)} \<subseteq>
      {length (wrappers w)..<length (wrappers w')}"
    using i(2) by auto
  have A2: "{length (wrappers w1)..<length (wrappers w')} \<subseteq>
      {length (wrappers w)..<length (wrappers w')}"
    using s(2) by auto
  have s5: "p \<in> set (free_list w tid) \<union> {length (wrappers w)..<length (wrappers w1)}"
      "set (free_list w1 tid) \<subseteq> set (free_list w tid) \<union> {length (wrappers w)..<length (wrappers w1)}"
    using s(5) by simp_all
  have "p \<notin> {length (wrappers w1)..<length (wrappers w')}" using s(3) by simp
  with i(7) s(4) have notin: "p \<notin> set ps' \<union> set (free_list w' tid)" by blast
  have sub: "insert p (set ps') \<union> set (free_list w' tid) \<subseteq>
      set (free_list w tid) \<union> {length (wrappers w)..<length (wrappers w')}"
    using i(7) s5 A1 A2 by blast
  have len: "length (free_list w' tid) + Suc n =
      length (free_list w tid) + (length (wrappers w') - length (wrappers w))"
    using i(8) s(6) s(2) i(2) by linarith
  show ?case
    using i(1,2,3,4,5,6) s(2,3) notin sub len unfolding ps by auto
qed

text \<open>
  Claim C5. A pool created for a thread has capacity 2. When an acquisition finds the
  free list of a pool of capacity \<open>C\<close> empty, the growth step asks the native driver for
  exactly \<open>C\<close> command buffers and the capacity becomes \<open>2C\<close> (for \<open>2C\<close> within
  \<open>uint32_t\<close>); when the native call succeeds, all \<open>C\<close> new wrappers are put on the
  free list, and the acquisition hands out the last of them and leaves the other
  \<open>C - 1\<close> free.
\<close>

theorem pool_growth_doubles:
  "(commandPoolHashTable w tid = None \<and>
      fst (vkCreateCommandPool drv (nativeCalls w)) = VK_SUCCESS \<longrightarrow>
      (\<exists>w' created. VULKAN_INTERNAL_FetchCommandPool drv w tid = Inr (w', Some created) \<and>
         commandPoolHashTable w' tid = Some created \<and> threadID created = tid \<and>
         inactiveCommandBufferCapacity created = 2 \<and>
         length (inactiveCommandBuffers created) = 2)) \<and>
   (inactiveCommandBufferCount pool = 0 \<and>
      length (inactiveCommandBuffers pool) = inactiveCommandBufferCapacity pool \<and>
      2 * inactiveCommandBufferCapacity pool < 2 ^ 32 \<longrightarrow>
      (\<exists>w' pool'. VULKAN_INTERNAL_AllocateCommandBuffers drv w pool
                      (inactiveCommandBufferCapacity pool) = Inr (w', pool') \<and>
         nativeCalls w' = nativeCalls w @
           [AllocateCommandBuffers (vkCommandPool pool) (inactiveCommandBufferCapacity pool)] \<and>
         inactiveCommandBufferCapacity pool' = 2 * inactiveCommandBufferCapacity pool \<and>
         (fst (vkAllocateCommandBuffers drv (nativeCalls w) (vkCommandPool pool)
                 (inactiveCommandBufferCapacity pool)) = VK_SUCCESS \<longrightarrow>
            inactiveCommandBufferCount pool' = inactiveCommandBufferCapacity pool \<and>
            take (inactiveCommandBufferCapacity pool) (inactiveCommandBuffers pool') =
              [length (wrappers w)..<length (wrappers w) + inactiveCommandBufferCapacity pool] \<and>
            length (wrappers w') = length (wrappers w) + inactiveCommandBufferCapacity pool))) \<and>
   (commandPoolHashTable w tid = Some pool \<and> inactiveCommandBufferCount pool = 0 \<and>
      length (inactiveCommandBuffers pool) = inactiveCommandBufferCapacity pool \<and>
      0 < inactiveCommandBufferCapacity pool \<and>
      2 * inactiveCommandBufferCapacity pool < 2 ^ 32 \<and>
      fst (vkAllocateCommandBuffers drv (nativeCalls w) (vkCommandPool pool)
             (inactiveCommandBufferCapacity pool)) = VK_SUCCESS \<longrightarrow>
      (\<exists>w' pool'. VULKAN_INTERNAL_GetInactiveCommandBufferFromPool drv w tid =
           Inr (length (wrappers w) + inactiveCommandBufferCapacity pool - 1, w') \<and>
         commandPoolHashTable w' tid = Some pool' \<and>
         inactiveCommandBufferCapacity pool' = 2 * inactiveCommandBufferCapacity pool \<and>
         free_list w' tid =
           [length (wrappers w)..<length (wrappers w) + inactiveCommandBufferCapacity pool - 1] \<and>
         nativeCalls w' = nativeCalls w @
           [AllocateCommandBuffers (vkCommandPool pool) (inactiveCommandBufferCapacity pool)]))"
proof (intro conjI impI)
  assume "commandPoolHashTable w tid = None \<and>
      fst (vkCreateCommandPool drv (nativeCalls w)) = VK_SUCCESS"
  then have miss: "commandPoolHashTable w tid = None"
    and ok: "fst (vkCreateCommandPool drv (nativeCalls w)) = VK_SUCCESS" by simp_all
  from FetchCommandPool_miss [OF miss ok] obtain w' created where
    "VULKAN_INTERNAL_FetchCommandPool drv w tid = Inr (w', Some created)"
    "commandPoolHashTable w' = (commandPoolHashTable w)(tid \<mapsto> created)"
    "inactiveCommandBufferCapacity created = 2" "length (inactiveCommandBuffers created) = 2"
    "threadID created = tid"
    by blast
  then show "\<exists>w' created. VULKAN_INTERNAL_FetchCommandPool drv w tid = Inr (w', Some created) \<and>
         commandPoolHashTable w' tid = Some created \<and> threadID created = tid \<and>
         inactiveCommandBufferCapacity created = 2 \<and>
         length (inactiveCommandBuffers created) = 2"
    by simp
next
  assume a: "inactiveCommandBufferCount pool = 0 \<and>
      length (inactiveCommandBuffers pool) = inactiveCommandBufferCapacity pool \<and>
      2 * inactiveCommandBufferCapacity pool < 2 ^ 32"
  define C where "C = inactiveCommandBufferCapacity pool"
  have fits: "inactiveCommandBufferCapacity pool + C < 2 ^ 32" using a by (simp add: C_def)
  have "\<exists>w' pool'. VULKAN_INTERNAL_AllocateCommandBuffers drv w pool C = Inr (w', pool') \<and>
         nativeCalls w' = nativeCalls w @ [AllocateCommandBuffers (vkCommandPool pool) C] \<and>
         inactiveCommandBufferCapacity pool' = 2 * C \<and>
         (fst (vkAllocateCommandBuffers drv (nativeCalls w) (vkCommandPool pool) C) = VK_SUCCESS \<longrightarrow>
            inactiveCommandBufferCount pool' = C \<and>
            take C (inactiveCommandBuffers pool') = [length (wrappers w)..<length (wrappers w) + C] \<and>
            length (wrappers w') = length (wrappers w) + C)"
  proof (cases "fst (vkAllocateCommandBuffers drv (nativeCalls w) (vkCommandPool pool) C) = VK_SUCCESS")
    case True
    from AllocateCommandBuffers_success [OF True _ _ fits] a show ?thesis
      by (fastforce simp: C_def)
  next
    case False
    have "(C + C) mod 4294967296 = 2 * C" using fits by (simp add: C_def)
    with AllocateCommandBuffers_failure [OF False] False show ?thesis
      by (simp add: C_def [symmetric])
  qed
  then show "\<exists>w' pool'. VULKAN_INTERNAL_AllocateCommandBuffers drv w pool
                      (inactiveCommandBufferCapacity pool) = Inr (w', pool') \<and>
         nativeCalls w' = nativeCalls w @
           [AllocateCommandBuffers (vkCommandPool pool) (inactiveCommandBufferCapacity pool)] \<and>
         inactiveCommandBufferCapacity pool' = 2 * inactiveCommandBufferCapacity pool \<and>
         (fst (vkAllocateCommandBuffers drv (nativeCalls w) (vkCommandPool pool)
                 (inactiveCommandBufferCapacity pool)) = VK_SUCCESS \<longrightarrow>
            inactiveCommandBufferCount pool' = inactiveCommandBufferCapacity pool \<and>
            take (inactiveCommandBufferCapacity pool) (inactiveCommandBuffers pool') =
              [length (wrappers w)..<length (wrappers w) + inactiveCommandBufferCapacity pool] \<and>
            length (wrappers w') = length (wrappers w) + inactiveCommandBufferCapacity pool)"
    unfolding C_def .
next
  assume a: "commandPoolHashTable w tid = Some pool \<and> inactiveCommandBufferCount pool = 0 \<and>
      length (inactiveCommandBuffers pool) = inactiveCommandBufferCapacity pool \<and>
      0 < inactiveCommandBufferCapacity pool \<and>
      2 * inactiveCommandBufferCapacity pool < 2 ^ 32 \<and>
      fst (vkAllocateCommandBuffers drv (nativeCalls w) (vkCommandPool pool)
             (inactiveCommandBufferCapacity pool)) = VK_SUCCESS"
  then have tab: "commandPoolHashTable w tid = Some pool"
    and empty: "inactiveCommandBufferCount pool = 0"
    and len: "length (inactiveCommandBuffers pool) = inactiveCommandBufferCapacity pool"
    and pos: "0 < inactiveCommandBufferCapacity pool"
    and fits: "2 * inactiveCommandBufferCapacity pool < 2 ^ 32"
    and ok: "fst (vkAllocateCommandBuffers drv (nativeCalls w) (vkCommandPool pool)
             (inactiveCommandBufferCapacity pool)) = VK_SUCCESS"
    by simp_all
  from GetInactive_grow [OF tab empty len pos fits ok] obtain w' pool' where
    g: "VULKAN_INTERNAL_GetInactiveCommandBufferFromPool drv w tid =
         Inr (length (wrappers w) + inactiveCommandBufferCapacity pool - 1, w')"
       "commandPoolHashTable w' = (commandPoolHashTable w)(tid \<mapsto> pool')"
       "inactiveCommandBufferCapacity pool' = 2 * inactiveCommandBufferCapacity pool"
       "inactiveCommandBufferCount pool' = inactiveCommandBufferCapacity pool - 1"
       "take (inactiveCommandBufferCapacity pool - 1) (inactiveCommandBuffers pool') =
         [length (wrappers w)..<length (wrappers w) + inactiveCommandBufferCapacity pool - 1]"
       "nativeCalls w' = nativeCalls w @
         [AllocateCommandBuffers (vkCommandPool pool) (inactiveCommandBufferCapacity pool)]"
    by blast
  have "free_list w' tid =
      [length (wrappers w)..<length (wrappers w) + inactiveCommandBufferCapacity pool - 1]"
    using g(2,4,5) by (simp add: free_list_def)
  with g show "\<exists>w' pool'. VULKAN_INTERNAL_GetInactiveCommandBufferFromPool drv w tid =
           Inr (length (wrappers w) + inactiveCommandBufferCapacity pool - 1, w') \<and>
         commandPoolHashTable w' tid = Some pool' \<and>
         inactiveCommandBufferCapacity pool' = 2 * inactiveCommandBufferCapacity pool \<and>
         free_list w' tid =
           [length (wrappers w)..<length (wrappers w) + inactiveCommandBufferCapacity pool - 1] \<and>
         nativeCalls w' = nativeCalls w @
           [AllocateCommandBuffers (vkCommandPool pool) (inactiveCommandBufferCapacity pool)]"
    by simp
qed


lemmas pool_examples = example_pool_def example_world_def

theorem pool_growth_doubles_witness:
  "map_sum id (\<lambda>(w, p). map_option inactiveCommandBufferCapacity p)
     (VULKAN_INTERNAL_FetchCommandPool serving_driver initial_world 5) = Inr (Some 2) \<and>
   inactiveCommandBufferCapacity example_pool = 2 \<and>
   inactiveCommandBufferCount example_pool = 0 \<and>
   map_sum id fst (VULKAN_INTERNAL_GetInactiveCommandBufferFromPool serving_driver example_world 5) =
     Inr 3 \<and>
   map_sum id (\<lambda>(b, w). (map_option inactiveCommandBufferCapacity (commandPoolHashTable w 5),
                          free_list w 5, nativeCalls w))
     (VULKAN_INTERNAL_GetInactiveCommandBufferFromPool serving_driver example_world 5) =
     Inr (Some 4, [2],
          [CreateCommandPool, AllocateCommandBuffers 7 2, AllocateCommandBuffers 7 2])"
  using pool_growth_doubles [of initial_world 5 serving_driver example_pool]
        pool_growth_doubles [of example_world 5 serving_driver example_pool]
  by (simp add: pool_eval pool_examples)

text \<open>
  Claim C6, at a growth that fails. A pool of capacity 2 with an empty free list is
  grown by 2 on a native driver that reports \<open>VK_ERROR_OUT_OF_DEVICE_MEMORY\<close>.
  \<open>VULKAN_INTERNAL_AllocateCommandBuffers\<close> has raised the capacity and resized the
  pointer array before the native call, and the early return of \<open>VULKAN_ERROR_CHECK\<close>
  leaves both as they are: the capacity is 4 afterwards, not 2. The caller,
  \<open>VULKAN_INTERNAL_GetInactiveCommandBufferFromPool\<close>, does not see the failure and
  reads the slot before the first of an empty free list.
\<close>

theorem failed_growth_raises_capacity:
  "fst (vkAllocateCommandBuffers exhausted_driver (nativeCalls example_world)
          (vkCommandPool example_pool) 2) = VK_ERROR_OUT_OF_DEVICE_MEMORY \<and>
   inactiveCommandBufferCapacity example_pool = 2 \<and>
   inactiveCommandBufferCount example_pool = 0 \<and>
   VULKAN_INTERNAL_AllocateCommandBuffers exhausted_driver example_world example_pool 2 =
     Inr (example_world
            \<lparr>nativeCalls := [CreateCommandPool, AllocateCommandBuffers 7 2,
                             AllocateCommandBuffers 7 2]\<rparr>,
          example_pool
            \<lparr>inactiveCommandBufferCapacity := 4, inactiveCommandBuffers := [0, 1, 0, 0]\<rparr>) \<and>
   VULKAN_INTERNAL_GetInactiveCommandBufferFromPool exhausted_driver example_world 5 =
     Inl OutOfBounds"
proof -
  have two: "replicate 2 (0::nat) = [0, 0]" by (simp add: numeral_2_eq_2)
  show ?thesis by (simp add: pool_eval pool_examples two)
qed

text \<open>
  Claim C7. When a thread with a well-formed pool (or none yet) makes \<open>n\<close> successful
  acquisitions in a row, the \<open>n\<close> wrappers it receives are pairwise distinct, none of
  them is left on the free list, and each is either taken from the free list the
  sequence started with or newly allocated, so none is a wrapper that was already
  handed out before. Each acquisition takes exactly one wrapper off the free list:
  the final count plus \<open>n\<close> is the initial count plus the number of wrappers
  allocated on the way.
\<close>

theorem acquisitions_are_distinct:
  assumes "pool_ok w tid" and "acquire_sequence drv tid n w = Inr (buffers, w')"
  shows "length buffers = n \<and> distinct buffers \<and>
         set buffers \<inter> set (free_list w' tid) = {} \<and>
         set buffers \<subseteq> set (free_list w tid) \<union> {length (wrappers w)..<length (wrappers w')} \<and>
         length (free_list w' tid) + n =
           length (free_list w tid) + (length (wrappers w') - length (wrappers w)) \<and>
         pool_ok w' tid"
  using acquire_sequence_inv [OF assms] by simp

theorem acquisitions_are_distinct_witness:
  "pool_ok initial_world 5 \<and>
   map_sum id fst (acquire_sequence serving_driver 5 3 initial_world) = Inr [1, 0, 3] \<and>
   distinct [1, 0, 3 :: nat] \<and>
   map_sum id (\<lambda>(bs, w). (free_list w 5, length (wrappers w)))
     (acquire_sequence serving_driver 5 3 initial_world) = Inr ([2], 4)"
proof -
  have ok: "pool_ok initial_world 5" by (simp add: pool_ok_def initial_world_def)
  obtain bs W where r: "acquire_sequence serving_driver 5 3 initial_world = Inr (bs, W)"
    by (simp add: pool_eval)
  from acquisitions_are_distinct [OF ok r] have "distinct bs" by simp
  moreover have "map_sum id fst (acquire_sequence serving_driver 5 3 initial_world) = Inr [1, 0, 3]"
    by (simp add: pool_eval)
  with r have "bs = [1, 0, 3]" by simp
  moreover have "map_sum id (\<lambda>(bs, w). (free_list w 5, length (wrappers w)))
     (acquire_sequence serving_driver 5 3 initial_world) = Inr ([2], 4)"
    by (simp add: pool_eval)
  ultimately show ?thesis using ok r by simp
qed

section \<open>Properties of CPU buffers\<close>

text \<open>
  Claim C10. If \<open>VULKAN_GpuCreateCpuBuffer\<close> obtains its block, it returns 0 and a
  following \<open>VULKAN_GpuLockCpuBuffer\<close> yields storage of \<open>buflen\<close> bytes that equal the
  supplied data when a data pointer was given, and are all zero when it was \<open>NULL\<close>.
  If the allocation fails, it reports out of memory (returns \<open>-1\<close> with \<open>SDL_ENOMEM\<close>
  set) and the buffer has no storage attached.
\<close>

theorem cpu_buffer_contents:
  "(calloc_succeeds \<longrightarrow>
      returned (VULKAN_GpuCreateCpuBuffer calloc_succeeds buffer data) = 0 \<and>
      error_set (VULKAN_GpuCreateCpuBuffer calloc_succeeds buffer data) = None \<and>
      (\<exists>storage.
         VULKAN_GpuLockCpuBuffer
           (buffer_after (VULKAN_GpuCreateCpuBuffer calloc_succeeds buffer data)) = Some storage \<and>
         length storage = buflen buffer \<and>
         (\<forall>i<buflen buffer.
            storage ! i = (case data of Some src \<Rightarrow> src i | None \<Rightarrow> 0)))) \<and>
   (\<not> calloc_succeeds \<longrightarrow>
      returned (VULKAN_GpuCreateCpuBuffer calloc_succeeds buffer data) = - 1 \<and>
      error_set (VULKAN_GpuCreateCpuBuffer calloc_succeeds buffer data) = Some SDL_ENOMEM \<and>
      VULKAN_GpuLockCpuBuffer
        (buffer_after (VULKAN_GpuCreateCpuBuffer calloc_succeeds buffer data)) = None) \<and>
   buflen (buffer_after (VULKAN_GpuCreateCpuBuffer calloc_succeeds buffer data)) = buflen buffer"
  by (cases data)
     (auto simp: VULKAN_GpuCreateCpuBuffer_def VULKAN_GpuLockCpuBuffer_def SDL_calloc_def
        SDL_memcpy_def Let_def)

theorem cpu_buffer_contents_witness:
  "VULKAN_GpuLockCpuBuffer (buffer_after (VULKAN_GpuCreateCpuBuffer True
       \<lparr>buflen = 3, driverdata = None\<rparr> (Some (\<lambda>i. if i = 0 then 7 else if i = 1 then 8 else 9)))) =
     Some [7, 8, 9] \<and>
   VULKAN_GpuLockCpuBuffer (buffer_after (VULKAN_GpuCreateCpuBuffer True
       \<lparr>buflen = 3, driverdata = None\<rparr> None)) = Some [0, 0, 0] \<and>
   returned (VULKAN_GpuCreateCpuBuffer False \<lparr>buflen = 3, driverdata = None\<rparr> None) = - 1 \<and>
   driverdata (buffer_after (VULKAN_GpuCreateCpuBuffer False
       \<lparr>buflen = 3, driverdata = Some [1, 2, 3]\<rparr> None)) = None"
  using cpu_buffer_contents [of True "\<lparr>buflen = 3, driverdata = None\<rparr>"
          "Some (\<lambda>i. if i = 0 then 7 else if i = 1 then 8 else 9)"]
        cpu_buffer_contents [of False "\<lparr>buflen = 3, driverdata = None\<rparr>" None]
  by (simp add: VULKAN_GpuCreateCpuBuffer_def VULKAN_GpuLockCpuBuffer_def SDL_calloc_def
        SDL_memcpy_def Let_def upt_rec numeral_3_eq_3)


section \<open>Properties of the fence entry points\<close>

text \<open>
  Claim C9, as amended. The fence operations of this driver are placeholders:
  \<open>waitFence\<close> returns 0 (success) at once for every fence, \<open>queryFence\<close> returns 1
  (signaled) for every fence, \<open>resetFence\<close> returns 0, and a submission returns 0; none
  of them reads or changes the fence, whether or not a submission has completed.
\<close>

theorem fence_entry_points_are_constant:
  "VULKAN_GpuWaitFence fence = (0, fence) \<and>
   VULKAN_GpuQueryFence fence = (1, fence) \<and>
   VULKAN_GpuResetFence fence = (0, fence) \<and>
   VULKAN_GpuSubmitCommandBuffer cmdbuf submitted_fence = (0, cmdbuf, submitted_fence)"
  by (simp add: VULKAN_GpuWaitFence_def VULKAN_GpuQueryFence_def VULKAN_GpuResetFence_def
      VULKAN_GpuSubmitCommandBuffer_def)

text \<open>
  The claim as stated lets \<open>waitFence\<close> on a freshly reset fence, with no submission in
  between, block or fail, and lets \<open>queryFence\<close> report signaled only after a
  submission has completed. In the driver, \<open>waitFence\<close> after \<open>resetFence\<close> returns 0,
  SDL's success value, and \<open>queryFence\<close> reports 1 although nothing was submitted.
\<close>

theorem wait_after_reset_counterexample:
  "fst (VULKAN_GpuWaitFence (snd (VULKAN_GpuResetFence (snd (VULKAN_GpuCreateFence (0::nat)))))) = 0 \<and>
   fst (VULKAN_GpuQueryFence (snd (VULKAN_GpuResetFence (snd (VULKAN_GpuCreateFence (0::nat)))))) = 1"
  by (simp add: VULKAN_GpuWaitFence_def VULKAN_GpuQueryFence_def VULKAN_GpuResetFence_def
      VULKAN_GpuCreateFence_def)

end
